theory Spec2Isabelle
  imports Main "HOL-Library.Sublist" "HOL-Library.Word"
begin

unbundle bit_operations_syntax

section \<open>WinClone: the scan command (cmd/scan.go) and the root command\<close>

text \<open>
  Go strings are byte sequences; they are modelled as \<open>string\<close> (a list of 8-bit
  characters), so a character outside ASCII is the bytes of its UTF-8 encoding.
  A Go \<open>error\<close> is modelled by the text its \<open>Error()\<close> method returns, a \<open>nil\<close> error
  by \<open>None\<close>.
\<close>

type_synonym error = string

definition nl :: string where
  "nl = [CHR 0x0A]"

subsection \<open>Library functions the source calls\<close>

text \<open>
  \<open>strings.TrimSpace\<close> removes the leading and the trailing white space of a string, white
  space being the runes of \<open>unicode.IsSpace\<close>: tab, line feed, vertical tab, form feed,
  carriage return, space, U+0085, U+00A0, U+1680, U+2000 to U+200A, U+2028, U+2029,
  U+202F, U+205F and U+3000. On the bytes of a string a white-space rune is exactly one
  of the UTF-8 encodings below (Go's decoder rejects overlong encodings and decodes an
  invalid byte as U+FFFD of width 1, which is not white space).
\<close>

definition spaceEncodings :: "string list" where
  "spaceEncodings =
     [[CHR 0x09], [CHR 0x0A], [CHR 0x0B], [CHR 0x0C], [CHR 0x0D], [CHR 0x20],
      [CHR 0xC2, CHR 0x85], [CHR 0xC2, CHR 0xA0],
      [CHR 0xE1, CHR 0x9A, CHR 0x80],
      [CHR 0xE2, CHR 0x80, CHR 0x80], [CHR 0xE2, CHR 0x80, CHR 0x81],
      [CHR 0xE2, CHR 0x80, CHR 0x82], [CHR 0xE2, CHR 0x80, CHR 0x83],
      [CHR 0xE2, CHR 0x80, CHR 0x84], [CHR 0xE2, CHR 0x80, CHR 0x85],
      [CHR 0xE2, CHR 0x80, CHR 0x86], [CHR 0xE2, CHR 0x80, CHR 0x87],
      [CHR 0xE2, CHR 0x80, CHR 0x88], [CHR 0xE2, CHR 0x80, CHR 0x89],
      [CHR 0xE2, CHR 0x80, CHR 0x8A],
      [CHR 0xE2, CHR 0x80, CHR 0xA8], [CHR 0xE2, CHR 0x80, CHR 0xA9],
      [CHR 0xE2, CHR 0x80, CHR 0xAF],
      [CHR 0xE2, CHR 0x81, CHR 0x9F],
      [CHR 0xE3, CHR 0x80, CHR 0x80]]"

text \<open>The width in bytes of the white-space rune a string starts with, 0 when it starts
  with none; the encodings are given explicitly so that the trailing side can use the
  reversed ones.\<close>

definition spaceWidth :: "string list \<Rightarrow> string \<Rightarrow> nat" where
  "spaceWidth encs s =
     (case find (\<lambda>p. prefix p s) encs of None \<Rightarrow> 0 | Some p \<Rightarrow> length p)"

fun trimLeading :: "string list \<Rightarrow> string \<Rightarrow> string" where
  "trimLeading encs [] = []"
| "trimLeading encs (c # cs) =
     (if spaceWidth encs (c # cs) = 0 then c # cs
      else trimLeading encs (drop (spaceWidth encs (c # cs) - 1) cs))"

definition TrimSpace :: "string \<Rightarrow> string" where
  "TrimSpace s =
     rev (trimLeading (map rev spaceEncodings) (rev (trimLeading spaceEncodings s)))"

text \<open>\<open>%d\<close> of a non-negative \<open>int\<close> (a length or a 1-based index): its decimal digits.\<close>

definition digit :: "nat \<Rightarrow> char" where
  "digit d = ''0123456789'' ! d"

fun itoa :: "nat \<Rightarrow> string" where
  "itoa n = (if n < 10 then [digit n] else itoa (n div 10) @ [digit (n mod 10)])"

declare itoa.simps [simp del]

subsection \<open>Data: programs and slices\<close>

record Program =
  Name :: string
  Version :: string
  Path :: string

text \<open>The zero value of the struct, what \<open>var program Program\<close> declares.\<close>

definition zeroProgram :: Program where
  "zeroProgram = \<lparr>Name = [], Version = [], Path = []\<rparr>"

text \<open>
  A Go slice is \<open>nil\<close> or holds elements; \<open>var s []T\<close> declares the nil slice, \<open>append\<close>
  of at least one element gives a slice that is not nil, and \<open>append\<close> of no element
  returns its first argument as it is. The difference shows in the JSON export.
\<close>

datatype 'a slice = nil_slice | Slice "'a list"

fun elems :: "'a slice \<Rightarrow> 'a list" where
  "elems nil_slice = []"
| "elems (Slice xs) = xs"

definition len :: "'a slice \<Rightarrow> nat" where
  "len s = length (elems s)"

definition append1 :: "'a slice \<Rightarrow> 'a \<Rightarrow> 'a slice" where
  "append1 s x = Slice (elems s @ [x])"

definition appendAll :: "'a slice \<Rightarrow> 'a slice \<Rightarrow> 'a slice" where
  "appendAll s t = (if elems t = [] then s else Slice (elems s @ elems t))"

subsection \<open>The configuration store and the process state\<close>

text \<open>
  The registry package is outside the repository; the scan uses three of its operations,
  taken here as the fields of a record over a type of key handles. Each returns its
  value or an error.
\<close>

type_synonym access = "32 word"

definition QUERY_VALUE :: access where
  "QUERY_VALUE = 0x1"

definition ENUMERATE_SUB_KEYS :: access where
  "ENUMERATE_SUB_KEYS = 0x8"

record 'h registry =
  LOCAL_MACHINE :: 'h
  OpenKey :: "'h \<Rightarrow> string \<Rightarrow> access \<Rightarrow> error + 'h"
  ReadSubKeyNames :: "'h \<Rightarrow> int \<Rightarrow> error + string list"
  GetStringValue :: "'h \<Rightarrow> string \<Rightarrow> error + string"

text \<open>What the process changes: the text written to standard output and the files.\<close>

record world =
  stdout :: string
  files :: "string \<Rightarrow> string option"

definition Print :: "string \<Rightarrow> world \<Rightarrow> world" where
  "Print s w = w\<lparr>stdout := stdout w @ s\<rparr>"

subsection \<open>The enumerator\<close>

definition getProgramFromSubkey :: "'h registry \<Rightarrow> 'h \<Rightarrow> string \<Rightarrow> Program \<times> error option" where
  "getProgramFromSubkey reg parentKey subkeyName =
     (let program = zeroProgram in
      case OpenKey reg parentKey subkeyName QUERY_VALUE of
        Inl err \<Rightarrow> (program, Some err)
      | Inr subkey \<Rightarrow>
          (case GetStringValue reg subkey ''DisplayName'' of
             Inl err \<Rightarrow> (program, Some err)
           | Inr name \<Rightarrow>
               (let program = program\<lparr>Name := TrimSpace name\<rparr>;
                    program = (case GetStringValue reg subkey ''DisplayVersion'' of
                                 Inr version \<Rightarrow> program\<lparr>Version := TrimSpace version\<rparr>
                               | Inl err \<Rightarrow> program);
                    program = (case GetStringValue reg subkey ''InstallLocation'' of
                                 Inr path \<Rightarrow> program\<lparr>Path := TrimSpace path\<rparr>
                               | Inl err \<Rightarrow> program)
                in (program, None))))"

text \<open>The loop of \<open>scanRegistryLocation\<close> over the subkey names, from index \<open>i\<close> on;
  \<open>cnt\<close> is \<open>len(subkeyNames)\<close>.\<close>

fun scanSubkeys ::
  "'h registry \<Rightarrow> 'h \<Rightarrow> nat \<Rightarrow> nat \<Rightarrow> string list \<Rightarrow> Program slice \<Rightarrow> world \<Rightarrow> Program slice \<times> world"
where
  "scanSubkeys reg key cnt i [] programs w = (programs, w)"
| "scanSubkeys reg key cnt i (subkeyName # rest) programs w =
     (let w1 = (if i mod 50 = 0 \<and> i > 0
                then Print (''  Processed '' @ itoa i @ ''/'' @ itoa cnt @ '' programs...'' @ nl) w
                else w)
      in case getProgramFromSubkey reg key subkeyName of
           (program, Some err) \<Rightarrow> scanSubkeys reg key cnt (i + 1) rest programs w1
         | (program, None) \<Rightarrow>
             if Name program \<noteq> []
             then scanSubkeys reg key cnt (i + 1) rest (append1 programs program) w1
             else scanSubkeys reg key cnt (i + 1) rest programs w1)"

definition scanRegistryLocation ::
  "'h registry \<Rightarrow> string \<Rightarrow> world \<Rightarrow> (Program slice \<times> error option) \<times> world"
where
  "scanRegistryLocation reg keyPath w0 =
     (let programs = nil_slice;
          w1 = Print (''  Opening registry key: '' @ keyPath @ nl) w0
      in case OpenKey reg (LOCAL_MACHINE reg) keyPath (ENUMERATE_SUB_KEYS OR QUERY_VALUE) of
           Inl err \<Rightarrow> ((nil_slice, Some (''failed to open registry key: '' @ err)), w1)
         | Inr key \<Rightarrow>
             (let w2 = Print (''  Reading subkey names...'' @ nl) w1
              in case ReadSubKeyNames reg key (- 1) of
                   Inl err \<Rightarrow> ((nil_slice, Some (''failed to read subkey names: '' @ err)), w2)
                 | Inr subkeyNames \<Rightarrow>
                     (let w3 = Print (''  Found '' @ itoa (length subkeyNames)
                                        @ '' subkeys to process'' @ nl) w2;
                          (programs', w4) =
                             scanSubkeys reg key (length subkeyNames) 0 subkeyNames programs w3
                      in ((programs', None), w4))))"

text \<open>The two registry locations; \<open>CHR 0x5C\<close> is the backslash.\<close>

definition uninstall64 :: string where
  "uninstall64 = ''SOFTWARE'' @ [CHR 0x5C] @ ''Microsoft'' @ [CHR 0x5C] @ ''Windows''
     @ [CHR 0x5C] @ ''CurrentVersion'' @ [CHR 0x5C] @ ''Uninstall''"

definition uninstall32 :: string where
  "uninstall32 = ''SOFTWARE'' @ [CHR 0x5C] @ ''WOW6432Node'' @ [CHR 0x5C] @ ''Microsoft''
     @ [CHR 0x5C] @ ''Windows'' @ [CHR 0x5C] @ ''CurrentVersion'' @ [CHR 0x5C] @ ''Uninstall''"

definition scanAllPrograms :: "'h registry \<Rightarrow> world \<Rightarrow> (Program slice \<times> error option) \<times> world" where
  "scanAllPrograms reg w0 =
     (let allPrograms = nil_slice;
          w1 = Print (''Step 1: Scanning 64-bit programs...'' @ nl) w0;
          w2 = Print (''Location: '' @ uninstall64 @ nl) w1;
          ((programs64, err64), w3) = scanRegistryLocation reg uninstall64 w2;
          (allPrograms1, w4) =
             (case err64 of
                Some e \<Rightarrow> (allPrograms, Print (''Warning: Could not scan 64-bit programs: '' @ e @ nl) w3)
              | None \<Rightarrow> (appendAll allPrograms programs64,
                         Print (''Found '' @ itoa (len programs64) @ '' 64-bit programs'' @ nl) w3));
          w5 = Print (nl @ ''Step 2: Scanning 32-bit programs...'' @ nl) w4;
          w6 = Print (''Location: '' @ uninstall32 @ nl) w5;
          ((programs32, err32), w7) = scanRegistryLocation reg uninstall32 w6;
          (allPrograms2, w8) =
             (case err32 of
                Some e \<Rightarrow> (allPrograms1, Print (''Warning: Could not scan 32-bit programs: '' @ e @ nl) w7)
              | None \<Rightarrow> (appendAll allPrograms1 programs32,
                         Print (''Found '' @ itoa (len programs32) @ '' 32-bit programs'' @ nl) w7))
      in ((allPrograms2, None), w8))"

subsection \<open>More library functions: lower case, suffixes, UTF-8 and the JSON encoder\<close>

text \<open>The lower case of a byte below 0x80, and the strings of such bytes only.\<close>

definition asciiLower :: "char \<Rightarrow> char" where
  "asciiLower c =
     (let b = of_char c :: nat in if 0x41 \<le> b \<and> b \<le> 0x5A then char_of (b + 32) else c)"

definition isASCII :: "string \<Rightarrow> bool" where
  "isASCII s = list_all (\<lambda>c. (of_char c :: nat) < 0x80) s"

definition HasSuffix :: "string \<Rightarrow> string \<Rightarrow> bool" where
  "HasSuffix s suf = (length suf \<le> length s \<and> drop (length s - length suf) s = suf)"

text \<open>
  \<open>utf8.DecodeRuneInString\<close>: the first rune of a string and its width in bytes; an
  invalid or truncated encoding is \<open>(RuneError, 1)\<close>. The accepted ranges of the second
  byte exclude overlong encodings, surrogates and values above U+10FFFF.
\<close>

definition RuneError :: nat where
  "RuneError = 0xFFFD"

fun DecodeRuneInString :: "string \<Rightarrow> nat \<times> nat" where
  "DecodeRuneInString [] = (RuneError, 0)"
| "DecodeRuneInString (c0 # cs) =
     (let s0 = of_char c0 :: nat in
      if s0 < 0x80 then (s0, 1)
      else if s0 < 0xC2 \<or> 0xF4 < s0 then (RuneError, 1)
      else
        (let sz = (if s0 < 0xE0 then 2 else if s0 < 0xF0 then 3 else 4) :: nat;
             lo = (if s0 = 0xE0 then 0xA0 else if s0 = 0xF0 then 0x90 else 0x80) :: nat;
             hi = (if s0 = 0xED then 0x9F else if s0 = 0xF4 then 0x8F else 0xBF) :: nat
         in if length (c0 # cs) < sz then (RuneError, 1)
            else
              (let s1 = of_char (cs ! 0) :: nat in
               if s1 < lo \<or> hi < s1 then (RuneError, 1)
               else if sz \<le> 2 then ((s0 mod 32) * 64 + s1 mod 64, 2)
               else
                 (let s2 = of_char (cs ! 1) :: nat in
                  if s2 < 0x80 \<or> 0xBF < s2 then (RuneError, 1)
                  else if sz \<le> 3 then ((s0 mod 16) * 4096 + (s1 mod 64) * 64 + s2 mod 64, 3)
                  else
                    (let s3 = of_char (cs ! 2) :: nat in
                     if s3 < 0x80 \<or> 0xBF < s3 then (RuneError, 1)
                     else ((s0 mod 8) * 262144 + (s1 mod 64) * 4096 + (s2 mod 64) * 64
                             + s3 mod 64, 4))))))"

text \<open>
  \<open>utf8.EncodeRune\<close> gives the bytes of a rune, those of U+FFFD for a surrogate or a
  value above U+10FFFF.
\<close>

definition EncodeRune :: "nat \<Rightarrow> string" where
  "EncodeRune r =
     (if r \<le> 0x7F then [char_of r]
      else if r \<le> 0x7FF then [char_of (0xC0 + r div 64), char_of (0x80 + r mod 64)]
      else if 0x10FFFF < r \<or> (0xD800 \<le> r \<and> r \<le> 0xDFFF) then [CHR 0xEF, CHR 0xBF, CHR 0xBD]
      else if r \<le> 0xFFFF
      then [char_of (0xE0 + r div 4096), char_of (0x80 + (r div 64) mod 64),
            char_of (0x80 + r mod 64)]
      else [char_of (0xF0 + r div 262144), char_of (0x80 + (r div 4096) mod 64),
            char_of (0x80 + (r div 64) mod 64), char_of (0x80 + r mod 64)])"

text \<open>
  \<open>strings.Map(mapping, s)\<close> for a mapping that returns no negative value: the runes of
  the string, each replaced by its image and written by \<open>WriteRune\<close>; a byte that is not
  part of a valid encoding is read as U+FFFD.
\<close>

fun strings_Map :: "(nat \<Rightarrow> nat) \<Rightarrow> string \<Rightarrow> string" where
  "strings_Map mapping [] = []"
| "strings_Map mapping (c # cs) =
     (case DecodeRuneInString (c # cs) of
        (r, width) \<Rightarrow> EncodeRune (mapping r) @ strings_Map mapping (drop (width - 1) cs))"

text \<open>
  \<open>unicode.ToLower\<close>: up to \<open>MaxASCII\<close> the letters A to Z go to a to z and every other
  rune stays; above it the result is \<open>unicode.To(unicode.LowerCase, r)\<close>, read from the
  case tables of the Unicode package, which are outside the repository: that function
  is the parameter \<open>mapLower\<close>.
\<close>

definition unicode_ToLower :: "(nat \<Rightarrow> nat) \<Rightarrow> nat \<Rightarrow> nat" where
  "unicode_ToLower mapLower r =
     (if r \<le> 0x7F then (if 0x41 \<le> r \<and> r \<le> 0x5A then r + 32 else r) else mapLower r)"

text \<open>
  \<open>strings.ToLower\<close> maps the letters A to Z of a string of ASCII bytes to a to z, byte
  by byte; a string with a byte from 0x80 on goes through
  \<open>strings.Map(unicode.ToLower, s)\<close>.
\<close>

definition ToLower :: "(nat \<Rightarrow> nat) \<Rightarrow> string \<Rightarrow> string" where
  "ToLower mapLower s =
     (if isASCII s then map asciiLower s else strings_Map (unicode_ToLower mapLower) s)"

text \<open>
  The string encoder of \<open>encoding/json\<close> with HTML escaping on, as \<open>json.NewEncoder\<close>
  leaves it: a byte below 0x80 stands for itself unless it is a control character, the
  double quote, the backslash or one of \<open><\<close>, \<open>>\<close>, \<open>&\<close>; an invalid byte becomes
  the escape of U+FFFD; U+2028 and U+2029 are escaped; every other rune is copied.
\<close>

definition hex :: "nat \<Rightarrow> char" where
  "hex d = ''0123456789abcdef'' ! d"

definition htmlSafe :: "nat \<Rightarrow> bool" where
  "htmlSafe b =
     (0x20 \<le> b \<and> b < 0x80 \<and> b \<noteq> 0x22 \<and> b \<noteq> 0x5C \<and> b \<noteq> 0x3C \<and> b \<noteq> 0x3E \<and> b \<noteq> 0x26)"

definition escapeByte :: "nat \<Rightarrow> string" where
  "escapeByte b =
     (if b = 0x5C \<or> b = 0x22 then [CHR 0x5C, char_of b]
      else if b = 0x08 then [CHR 0x5C, CHR ''b'']
      else if b = 0x0C then [CHR 0x5C, CHR ''f'']
      else if b = 0x0A then [CHR 0x5C, CHR ''n'']
      else if b = 0x0D then [CHR 0x5C, CHR ''r'']
      else if b = 0x09 then [CHR 0x5C, CHR ''t'']
      else [CHR 0x5C, CHR ''u'', CHR ''0'', CHR ''0'', hex (b div 16), hex (b mod 16)])"

fun escapeBody :: "string \<Rightarrow> string" where
  "escapeBody [] = []"
| "escapeBody (c # cs) =
     (let b = of_char c :: nat in
      if b < 0x80 then
        (if htmlSafe b then c # escapeBody cs else escapeByte b @ escapeBody cs)
      else
        (case DecodeRuneInString (take 4 (c # cs)) of
           (r, width) \<Rightarrow>
             if r = RuneError \<and> width = 1
             then [CHR 0x5C, CHR ''u'', CHR ''f'', CHR ''f'', CHR ''f'', CHR ''d''] @ escapeBody cs
             else if r = 0x2028 \<or> r = 0x2029
             then [CHR 0x5C, CHR ''u'', CHR ''2'', CHR ''0'', CHR ''2'', hex (r mod 16)]
                    @ escapeBody (drop (width - 1) cs)
             else take width (c # cs) @ escapeBody (drop (width - 1) cs)))"

definition encodeString :: "string \<Rightarrow> string" where
  "encodeString s = [CHR 0x22] @ escapeBody s @ [CHR 0x22]"

text \<open>
  JSON values, and their text as \<open>Encoder.Encode\<close> writes it after \<open>SetIndent("", "  ")\<close>:
  every element and member on a line of its own, indented by two spaces for each level,
  a space after the colon, an empty array or object closed at once.
\<close>

datatype json = JNull | JBool bool | JNumber string | JString string
  | JArray "json list" | JObject "(string \<times> json) list"

definition newline :: "nat \<Rightarrow> string" where
  "newline depth = nl @ concat (replicate depth ''  '')"

fun joinWith :: "string \<Rightarrow> string list \<Rightarrow> string" where
  "joinWith sep [] = []"
| "joinWith sep [x] = x"
| "joinWith sep (x # y # ys) = x @ sep @ joinWith sep (y # ys)"

fun indentJSON :: "nat \<Rightarrow> json \<Rightarrow> string" where
  "indentJSON depth JNull = ''null''"
| "indentJSON depth (JBool b) = (if b then ''true'' else ''false'')"
| "indentJSON depth (JNumber n) = n"
| "indentJSON depth (JString s) = encodeString s"
| "indentJSON depth (JArray vs) =
     (if vs = [] then ''[]''
      else ''['' @ newline (depth + 1)
           @ joinWith ('','' @ newline (depth + 1)) (map (indentJSON (depth + 1)) vs)
           @ newline depth @ '']'')"
| "indentJSON depth (JObject kvs) =
     (if kvs = [] then ''{}''
      else ''{'' @ newline (depth + 1)
           @ joinWith ('','' @ newline (depth + 1))
               (map (\<lambda>kv. encodeString (fst kv) @ '': '' @ indentJSON (depth + 1) (snd kv)) kvs)
           @ newline depth @ ''}'')"

text \<open>
  What the encoder makes of the values the program hands it: a struct is an object of
  its exported fields in the order of their declaration (\<open>Program\<close> has no field tags), a
  slice is an array, and the nil slice is \<open>null\<close>.
\<close>

definition marshalProgram :: "Program \<Rightarrow> json" where
  "marshalProgram p =
     JObject [(''Name'', JString (Name p)), (''Version'', JString (Version p)),
              (''Path'', JString (Path p))]"

fun marshalPrograms :: "Program slice \<Rightarrow> json" where
  "marshalPrograms nil_slice = JNull"
| "marshalPrograms (Slice ps) = JArray (map marshalProgram ps)"

subsection \<open>Files\<close>

text \<open>
  Which file operations fail is the operating system's choice, given as \<open>fsys\<close>.
  \<open>os.Create\<close> creates or truncates the file; the handle is modelled by the file's name.
  A write that fails is taken to write nothing.
\<close>

record fsys =
  createError :: "string \<Rightarrow> error option"
  writeError :: "string \<Rightarrow> error option"

definition os_Create :: "fsys \<Rightarrow> string \<Rightarrow> world \<Rightarrow> (error + string) \<times> world" where
  "os_Create fs filename w =
     (case createError fs filename of
        Some err \<Rightarrow> (Inl err, w)
      | None \<Rightarrow> (Inr filename, w\<lparr>files := (files w)(filename \<mapsto> [])\<rparr>))"

definition file_Write :: "fsys \<Rightarrow> string \<Rightarrow> string \<Rightarrow> world \<Rightarrow> error option \<times> world" where
  "file_Write fs file fdata w =
     (case writeError fs file of
        Some err \<Rightarrow> (Some err, w)
      | None \<Rightarrow>
          (None, w\<lparr>files := (files w)(file \<mapsto>
                    (case files w file of None \<Rightarrow> [] | Some old \<Rightarrow> old) @ fdata)\<rparr>))"

text \<open>\<open>fmt.Fprintf(file, ...)\<close> with its result dropped, as \<open>saveToText\<close> calls it.\<close>

definition Fprintf :: "fsys \<Rightarrow> string \<Rightarrow> string \<Rightarrow> world \<Rightarrow> world" where
  "Fprintf fs file s w = snd (file_Write fs file s w)"

text \<open>\<open>encoder.Encode(programs)\<close>: the indented document and a newline, in one write.\<close>

definition Encode :: "fsys \<Rightarrow> string \<Rightarrow> Program slice \<Rightarrow> world \<Rightarrow> error option \<times> world" where
  "Encode fs file programs w = file_Write fs file (indentJSON 0 (marshalPrograms programs) @ nl) w"

subsection \<open>The formatter and the exporters\<close>

text \<open>The loop of \<open>displayResults\<close>, from index \<open>i\<close> on.\<close>

fun displayPrograms :: "nat \<Rightarrow> Program list \<Rightarrow> world \<Rightarrow> world" where
  "displayPrograms i [] w = w"
| "displayPrograms i (program # rest) w0 =
     (let w1 = Print (itoa (i + 1) @ ''. '' @ Name program) w0;
          w2 = (if Version program \<noteq> [] then Print ('' (v'' @ Version program @ '')'') w1 else w1);
          w3 = Print nl w2;
          w4 = (if Path program \<noteq> [] then Print (''   Path: '' @ Path program @ nl) w3 else w3);
          w5 = Print nl w4
      in displayPrograms (i + 1) rest w5)"

definition displayResults :: "Program slice \<Rightarrow> world \<Rightarrow> world" where
  "displayResults programs w0 =
     (let w1 = Print (nl @ replicate 50 (CHR ''='') @ nl) w0;
          w2 = Print (''SCAN COMPLETE!'' @ nl) w1;
          w3 = Print (''Found '' @ itoa (len programs) @ '' installed programs:'' @ nl) w2;
          w4 = Print (replicate 50 (CHR ''='') @ nl @ nl) w3
      in displayPrograms 0 (elems programs) w4)"

definition saveToJSON :: "fsys \<Rightarrow> Program slice \<Rightarrow> string \<Rightarrow> world \<Rightarrow> error option \<times> world" where
  "saveToJSON fs programs filename w0 =
     (case os_Create fs filename w0 of
        (Inl err, w1) \<Rightarrow> (Some (''failed to create file: '' @ err), w1)
      | (Inr file, w1) \<Rightarrow>
          (case Encode fs file programs w1 of
             (Some err, w2) \<Rightarrow> (Some (''failed to encode JSON: '' @ err), w2)
           | (None, w2) \<Rightarrow> (None, w2)))"

text \<open>The loop of \<open>saveToText\<close>, from index \<open>i\<close> on.\<close>

fun writePrograms :: "fsys \<Rightarrow> string \<Rightarrow> nat \<Rightarrow> Program list \<Rightarrow> world \<Rightarrow> world" where
  "writePrograms fs file i [] w = w"
| "writePrograms fs file i (program # rest) w0 =
     (let w1 = Fprintf fs file (itoa (i + 1) @ ''. '' @ Name program) w0;
          w2 = (if Version program \<noteq> []
                then Fprintf fs file ('' (v'' @ Version program @ '')'') w1 else w1);
          w3 = Fprintf fs file nl w2;
          w4 = (if Path program \<noteq> []
                then Fprintf fs file (''   Path: '' @ Path program @ nl) w3 else w3);
          w5 = Fprintf fs file nl w4
      in writePrograms fs file (i + 1) rest w5)"

definition saveToText :: "fsys \<Rightarrow> Program slice \<Rightarrow> string \<Rightarrow> world \<Rightarrow> error option \<times> world" where
  "saveToText fs programs filename w0 =
     (case os_Create fs filename w0 of
        (Inl err, w1) \<Rightarrow> (Some (''failed to create file: '' @ err), w1)
      | (Inr file, w1) \<Rightarrow>
          (let w2 = Fprintf fs file (''WinClone - Installed Programs List'' @ nl) w1;
               w3 = Fprintf fs file (''Generated on: '' @ ''2025-01-14'' @ nl) w2;
               w4 = Fprintf fs file (''Total programs found: '' @ itoa (len programs) @ nl) w3;
               w5 = Fprintf fs file (replicate 50 (CHR ''='') @ nl @ nl) w4
           in (None, writePrograms fs file 0 (elems programs) w5)))"

subsection \<open>The commands\<close>

text \<open>What \<open>scanCmd\<close>'s \<open>Run\<close> does with the scanned programs and the value of the
  \<open>output\<close> flag (the empty string when the flag is not given).\<close>

definition exportResults ::
  "fsys \<Rightarrow> (nat \<Rightarrow> nat) \<Rightarrow> Program slice \<Rightarrow> string \<Rightarrow> world \<Rightarrow> world"
where
  "exportResults fs mapLower programs outputFile w0 =
     (if outputFile \<noteq> [] then
        (if HasSuffix (ToLower mapLower outputFile) ''.json'' then
           (case saveToJSON fs programs outputFile w0 of
              (Some err, w1) \<Rightarrow> Print (''Error saving to JSON: '' @ err @ nl) w1
            | (None, w1) \<Rightarrow> Print (nl @ ''Results saved to JSON: '' @ outputFile @ nl) w1)
         else
           (case saveToText fs programs outputFile w0 of
              (Some err, w1) \<Rightarrow> Print (''Error saving to text: '' @ err @ nl) w1
            | (None, w1) \<Rightarrow> Print (nl @ ''Results saved to text: '' @ outputFile @ nl) w1))
      else displayResults programs w0)"

definition scanCmd_Run ::
  "'h registry \<Rightarrow> fsys \<Rightarrow> (nat \<Rightarrow> nat) \<Rightarrow> string \<Rightarrow> world \<Rightarrow> world"
where
  "scanCmd_Run reg fs mapLower outputFile w0 =
     (let w1 = Print (''WinClone - Scanning installed programs...'' @ nl) w0;
          w2 = Print (''=========================================='' @ nl) w1
      in case scanAllPrograms reg w2 of
           ((programs, Some err), w3) \<Rightarrow> Print (''Error scanning programs: '' @ err @ nl) w3
         | ((programs, None), w3) \<Rightarrow> exportResults fs mapLower programs outputFile w3)"

text \<open>
  The command framework (cobra) is outside the repository. What it makes of the command
  line is given: it rejects it with an error, it prints a help text, or it calls the
  \<open>Run\<close> function of \<open>scanCmd\<close> with the value of the \<open>output\<close> flag. \<open>Run\<close> returns
  nothing, so \<open>rootCmd.Execute()\<close> has an error only in the first case. \<open>Execute\<close> gives
  the exit status of the process: \<open>os.Exit(1)\<close> on an error, 0 when it returns.
\<close>

datatype dispatch = Rejected error | Help string | RunScan string

definition rootCmd_Execute ::
  "'h registry \<Rightarrow> fsys \<Rightarrow> (nat \<Rightarrow> nat) \<Rightarrow> dispatch \<Rightarrow> world \<Rightarrow> error option \<times> world"
where
  "rootCmd_Execute reg fs mapLower d w =
     (case d of
        Rejected err \<Rightarrow> (Some err, w)
      | Help msg \<Rightarrow> (None, Print msg w)
      | RunScan outputFile \<Rightarrow> (None, scanCmd_Run reg fs mapLower outputFile w))"

definition Execute ::
  "'h registry \<Rightarrow> fsys \<Rightarrow> (nat \<Rightarrow> nat) \<Rightarrow> dispatch \<Rightarrow> world \<Rightarrow> nat \<times> world"
where
  "Execute reg fs mapLower d w =
     (case rootCmd_Execute reg fs mapLower d w of
        (Some err, w1) \<Rightarrow> (1, w1)
      | (None, w1) \<Rightarrow> (0, w1))"

section \<open>Specification\<close>

subsection \<open>What the enumerator is to return\<close>

text \<open>
  The records one child contributes: its record when the child could be read and the
  record has a name, none otherwise.
\<close>

definition extracted :: "'h registry \<Rightarrow> 'h \<Rightarrow> string \<Rightarrow> Program list" where
  "extracted reg key n =
     (case getProgramFromSubkey reg key n of
        (p, Some err) \<Rightarrow> []
      | (p, None) \<Rightarrow> if Name p \<noteq> [] then [p] else [])"

text \<open>The failure of a root: its key cannot be opened, or its children cannot be listed.\<close>

definition rootError :: "'h registry \<Rightarrow> string \<Rightarrow> error option" where
  "rootError reg keyPath =
     (case OpenKey reg (LOCAL_MACHINE reg) keyPath (ENUMERATE_SUB_KEYS OR QUERY_VALUE) of
        Inl err \<Rightarrow> Some (''failed to open registry key: '' @ err)
      | Inr key \<Rightarrow>
          (case ReadSubKeyNames reg key (- 1) of
             Inl err \<Rightarrow> Some (''failed to read subkey names: '' @ err)
           | Inr names \<Rightarrow> None))"

text \<open>The records of a root: those of its children, in the order the store lists them; a
  root that fails has none.\<close>

definition rootRecords :: "'h registry \<Rightarrow> string \<Rightarrow> Program list" where
  "rootRecords reg keyPath =
     (case OpenKey reg (LOCAL_MACHINE reg) keyPath (ENUMERATE_SUB_KEYS OR QUERY_VALUE) of
        Inl err \<Rightarrow> []
      | Inr key \<Rightarrow>
          (case ReadSubKeyNames reg key (- 1) of
             Inl err \<Rightarrow> []
           | Inr names \<Rightarrow> concat (map (extracted reg key) names)))"

text \<open>The slice that holds given records when they were appended one by one to the nil
  slice.\<close>

definition sliceOf :: "'a list \<Rightarrow> 'a slice" where
  "sliceOf xs = (if xs = [] then nil_slice else Slice xs)"

text \<open>The text \<open>scanRegistryLocation\<close> prints for a root.\<close>

definition scanLog :: "'h registry \<Rightarrow> string \<Rightarrow> string" where
  "scanLog reg keyPath =
     stdout (snd (scanRegistryLocation reg keyPath \<lparr>stdout = [], files = Map.empty\<rparr>))"

text \<open>What the scan of both roots prints: for each root its two heading lines, the log
  of its scan, and the warning when it failed or else the number of programs found.\<close>

definition rootReport :: "'h registry \<Rightarrow> string \<Rightarrow> string \<Rightarrow> string" where
  "rootReport reg keyPath bits =
     (case rootError reg keyPath of
        Some e \<Rightarrow> ''Warning: Could not scan '' @ bits @ '' programs: '' @ e @ nl
      | None \<Rightarrow> ''Found '' @ itoa (length (rootRecords reg keyPath)) @ '' '' @ bits @ '' programs'' @ nl)"

subsection \<open>The block of one program in the console listing and in the text export\<close>

definition programBlock :: "nat \<Rightarrow> Program \<Rightarrow> string" where
  "programBlock i p =
     itoa (i + 1) @ ''. '' @ Name p
     @ (if Version p \<noteq> [] then '' (v'' @ Version p @ '')'' else []) @ nl
     @ (if Path p \<noteq> [] then ''   Path: '' @ Path p @ nl else [])
     @ nl"

definition programBlocks :: "nat \<Rightarrow> Program list \<Rightarrow> string" where
  "programBlocks i ps = concat (map (\<lambda>(k, p). programBlock k p) (enumerate i ps))"

subsection \<open>A store in memory\<close>

text \<open>
  A registry given by two tables: the keys by their paths from \<open>LOCAL_MACHINE\<close>, each
  with the names its listing returns (or no listing, when listing it is denied), and the
  string values by key and field. A key or a value that is not in its table cannot be
  found.
\<close>

definition notFound :: error where
  "notFound = ''The system cannot find the file specified.''"

definition accessDenied :: error where
  "accessDenied = ''Access is denied.''"

definition fakeRegistry ::
  "(string list \<times> string list option) list \<Rightarrow> ((string list \<times> string) \<times> string) list
     \<Rightarrow> string list registry"
where
  "fakeRegistry keys vals =
     \<lparr>LOCAL_MACHINE = [],
      OpenKey = (\<lambda>h n a. case map_of keys (h @ [n]) of
                           None \<Rightarrow> Inl notFound
                         | Some listing \<Rightarrow> Inr (h @ [n])),
      ReadSubKeyNames = (\<lambda>h n. case map_of keys h of
                                 None \<Rightarrow> Inl notFound
                               | Some None \<Rightarrow> Inl accessDenied
                               | Some (Some names) \<Rightarrow> Inr names),
      GetStringValue = (\<lambda>h f. case map_of vals (h, f) of
                                None \<Rightarrow> Inl notFound
                              | Some v \<Rightarrow> Inr v)\<rparr>"

text \<open>
  The stores of the examples. Root A has the children C1 (Alpha, with version and
  path), C2 (no name, only a version), C4 (a name with blanks around it) and C5 (a name
  of blanks only, with a version); root B has the child C3 (Beta). How each root answers
  is the argument: \<open>None\<close> when it cannot be opened, \<open>Some None\<close> when it cannot be
  listed, \<open>Some (Some names)\<close> when its listing returns \<open>names\<close>.
\<close>

definition store :: "string list option option \<Rightarrow> string list option option \<Rightarrow> string list registry" where
  "store rootA rootB =
     fakeRegistry
       ((case rootA of None \<Rightarrow> [] | Some listing \<Rightarrow> [([uninstall64], listing)])
        @ (case rootB of None \<Rightarrow> [] | Some listing \<Rightarrow> [([uninstall32], listing)])
        @ [([uninstall64, ''C1''], Some []),
           ([uninstall64, ''C2''], Some []),
           ([uninstall64, ''C4''], Some []),
           ([uninstall64, ''C5''], Some []),
           ([uninstall32, ''C3''], Some [])])
       [(([uninstall64, ''C1''], ''DisplayName''), ''Alpha''),
        (([uninstall64, ''C1''], ''DisplayVersion''), ''1.0''),
        (([uninstall64, ''C1''], ''InstallLocation''), ''C:'' @ [CHR 0x5C] @ ''Alpha''),
        (([uninstall64, ''C2''], ''DisplayVersion''), ''7''),
        (([uninstall64, ''C4''], ''DisplayName''), ''  Foo  ''),
        (([uninstall64, ''C5''], ''DisplayName''), ''   ''),
        (([uninstall64, ''C5''], ''DisplayVersion''), ''2.0''),
        (([uninstall32, ''C3''], ''DisplayName''), ''Beta'')]"

text \<open>The scenario of the specification: root A lists Alpha and the child without a
  name, root B lists Beta.\<close>

definition scenario :: "string list registry" where
  "scenario = store (Some (Some [''C1'', ''C2''])) (Some (Some [''C3'']))"

definition alpha :: Program where
  "alpha = \<lparr>Name = ''Alpha'', Version = ''1.0'', Path = ''C:'' @ [CHR 0x5C] @ ''Alpha''\<rparr>"

definition beta :: Program where
  "beta = \<lparr>Name = ''Beta'', Version = [], Path = []\<rparr>"

definition emptyWorld :: world where
  "emptyWorld = \<lparr>stdout = [], files = Map.empty\<rparr>"

subsection \<open>The documents of the two exports\<close>

text \<open>The text report: the header block, then the blocks of the programs.\<close>

definition textReport :: "Program slice \<Rightarrow> string" where
  "textReport programs =
     ''WinClone - Installed Programs List'' @ nl
     @ ''Generated on: 2025-01-14'' @ nl
     @ ''Total programs found: '' @ itoa (length (elems programs)) @ nl
     @ replicate 50 (CHR ''='') @ nl
     @ nl
     @ programBlocks 0 (elems programs)"

text \<open>The structured document: what the encoder writes for the slice.\<close>

definition jsonDocument :: "Program slice \<Rightarrow> string" where
  "jsonDocument programs = indentJSON 0 (marshalPrograms programs) @ nl"

text \<open>A file system on which every operation succeeds.\<close>

definition okfs :: fsys where
  "okfs = \<lparr>createError = (\<lambda>f. None), writeError = (\<lambda>f. None)\<rparr>"

text \<open>
  A lower-case table for the examples. It has the entry of the Unicode tables for U+00C9
  (its lower case is U+00E9) and the entries of the two runes above \<open>MaxASCII\<close> whose
  lower case is an ASCII letter, U+0130 (i) and U+212A (k), and leaves every other rune
  as it is.
\<close>

definition someLower :: "nat \<Rightarrow> nat" where
  "someLower r =
     (if r = 0xC9 then 0xE9 else if r = 0x130 then 0x69 else if r = 0x212A then 0x6B else r)"

subsection \<open>Reading a structured document back\<close>

text \<open>
  The repository writes the structured document and never reads it; reading it back is
  modelled on the decoder of \<open>encoding/json\<close>, the counterpart of the encoder above.
\<close>

text \<open>The value of a hexadecimal digit, and of the escape \<open>\uXXXX\<close> a text starts with.\<close>

definition hexValue :: "char \<Rightarrow> nat option" where
  "hexValue c =
     (let b = of_char c :: nat in
      if 0x30 \<le> b \<and> b \<le> 0x39 then Some (b - 0x30)
      else if 0x61 \<le> b \<and> b \<le> 0x66 then Some (b - 0x61 + 10)
      else if 0x41 \<le> b \<and> b \<le> 0x46 then Some (b - 0x41 + 10)
      else None)"

fun getu4 :: "string \<Rightarrow> nat option" where
  "getu4 (c0 # c1 # h1 # h2 # h3 # h4 # rest) =
     (if c0 = CHR 0x5C \<and> c1 = CHR ''u'' then
        (case (hexValue h1, hexValue h2, hexValue h3, hexValue h4) of
           (Some a, Some b, Some c, Some d) \<Rightarrow> Some (((a * 16 + b) * 16 + c) * 16 + d)
         | _ \<Rightarrow> None)
      else None)"
| "getu4 s = None"

text \<open>The byte a one-letter escape stands for.\<close>

definition unescape :: "char \<Rightarrow> char option" where
  "unescape e =
     (if e = CHR 0x22 \<or> e = CHR 0x5C \<or> e = CHR ''/'' then Some e
      else if e = CHR ''b'' then Some (CHR 0x08)
      else if e = CHR ''f'' then Some (CHR 0x0C)
      else if e = CHR ''n'' then Some (CHR 0x0A)
      else if e = CHR ''r'' then Some (CHR 0x0D)
      else if e = CHR ''t'' then Some (CHR 0x09)
      else None)"

definition prepend :: "string \<Rightarrow> (string \<times> string) option \<Rightarrow> (string \<times> string) option" where
  "prepend x r = (case r of None \<Rightarrow> None | Some (s, rest) \<Rightarrow> Some (x @ s, rest))"

text \<open>
  The string literal whose opening quote has been read: its value and the text after
  its closing quote. A control character or a wrong escape is an error; two escapes
  that form a surrogate pair are one rune, a lone surrogate is U+FFFD; an invalid byte
  is U+FFFD.
\<close>

fun unquote :: "string \<Rightarrow> (string \<times> string) option" where
  "unquote [] = None"
| "unquote (c # cs) =
     (let b = of_char c :: nat in
      if c = CHR 0x22 then Some ([], cs)
      else if c = CHR 0x5C then
        (case cs of
           [] \<Rightarrow> None
         | e # es \<Rightarrow>
             if e = CHR ''u'' then
               (case getu4 (c # cs) of
                  None \<Rightarrow> None
                | Some rr \<Rightarrow>
                    if 0xD800 \<le> rr \<and> rr < 0xE000 then
                      (case getu4 (drop 4 es) of
                         None \<Rightarrow> prepend (EncodeRune RuneError) (unquote (drop 4 es))
                       | Some rr1 \<Rightarrow>
                           if rr < 0xDC00 \<and> 0xDC00 \<le> rr1 \<and> rr1 < 0xE000
                           then prepend
                                  (EncodeRune ((rr - 0xD800) * 1024 + (rr1 - 0xDC00) + 0x10000))
                                  (unquote (drop 10 es))
                           else prepend (EncodeRune RuneError) (unquote (drop 4 es)))
                    else prepend (EncodeRune rr) (unquote (drop 4 es)))
             else (case unescape e of
                     None \<Rightarrow> None
                   | Some x \<Rightarrow> prepend [x] (unquote es)))
      else if b < 0x20 then None
      else if b < 0x80 then prepend [c] (unquote cs)
      else (case DecodeRuneInString (c # cs) of
              (rr, width) \<Rightarrow> prepend (EncodeRune rr) (unquote (drop (width - 1) cs))))"

fun skipSpace :: "string \<Rightarrow> string" where
  "skipSpace [] = []"
| "skipSpace (c # cs) =
     (if c = CHR 0x20 \<or> c = CHR 0x09 \<or> c = CHR 0x0D \<or> c = CHR 0x0A then skipSpace cs
      else c # cs)"

text \<open>A number: an optional minus sign, the integer part without a leading zero, an
  optional fraction, an optional exponent. The value keeps the text.\<close>

definition isDigit :: "char \<Rightarrow> bool" where
  "isDigit c = (0x30 \<le> (of_char c :: nat) \<and> (of_char c :: nat) \<le> 0x39)"

definition scanNumber :: "string \<Rightarrow> (string \<times> string) option" where
  "scanNumber s =
     (let (sign, s1) = (case s of c # cs \<Rightarrow> if c = CHR ''-'' then ([c], cs) else ([], s)
                                | [] \<Rightarrow> ([], s));
          ds = takeWhile isDigit s1; s2 = dropWhile isDigit s1
      in if ds = [] \<or> (hd ds = CHR ''0'' \<and> length ds > 1) then None
         else
           (let (frac, s3) =
                  (case s2 of
                     c # cs \<Rightarrow> if c = CHR ''.'' then (c # takeWhile isDigit cs, dropWhile isDigit cs)
                               else ([], s2)
                   | [] \<Rightarrow> ([], s2))
            in if frac = ''.'' then None
               else
                 (case s3 of
                    c # cs \<Rightarrow>
                      if c = CHR ''e'' \<or> c = CHR ''E'' then
                        (let (esign, s4) =
                               (case cs of
                                  d # s' \<Rightarrow> if d = CHR ''+'' \<or> d = CHR ''-'' then ([d], s')
                                            else ([], cs)
                                | [] \<Rightarrow> ([], cs));
                             es = takeWhile isDigit s4
                         in if es = [] then None
                            else Some (sign @ ds @ frac @ [c] @ esign @ es, dropWhile isDigit s4))
                      else Some (sign @ ds @ frac, s3)
                  | [] \<Rightarrow> Some (sign @ ds @ frac, s3))))"

text \<open>
  The value a text starts with, and the text after it. The first argument bounds the
  number of calls; every call reads at least one byte, so the length of the text is
  enough.
\<close>

fun parseValue :: "nat \<Rightarrow> string \<Rightarrow> (json \<times> string) option"
  and parseElements :: "nat \<Rightarrow> string \<Rightarrow> (json list \<times> string) option"
  and parseMembers :: "nat \<Rightarrow> string \<Rightarrow> ((string \<times> json) list \<times> string) option"
where
  "parseValue 0 s = None"
| "parseValue (Suc n) s =
     (case skipSpace s of
        [] \<Rightarrow> None
      | c # cs \<Rightarrow>
          if c = CHR 0x22 then
            (case unquote cs of None \<Rightarrow> None | Some (x, rest) \<Rightarrow> Some (JString x, rest))
          else if c = CHR ''['' then
            (case skipSpace cs of
               [] \<Rightarrow> None
             | d # ds \<Rightarrow>
                 if d = CHR '']'' then Some (JArray [], ds)
                 else (case parseElements n cs of
                         None \<Rightarrow> None
                       | Some (vs, rest) \<Rightarrow> Some (JArray vs, rest)))
          else if c = CHR ''{'' then
            (case skipSpace cs of
               [] \<Rightarrow> None
             | d # ds \<Rightarrow>
                 if d = CHR ''}'' then Some (JObject [], ds)
                 else (case parseMembers n cs of
                         None \<Rightarrow> None
                       | Some (kvs, rest) \<Rightarrow> Some (JObject kvs, rest)))
          else if prefix ''null'' (c # cs) then Some (JNull, drop 3 cs)
          else if prefix ''true'' (c # cs) then Some (JBool True, drop 3 cs)
          else if prefix ''false'' (c # cs) then Some (JBool False, drop 4 cs)
          else (case scanNumber (c # cs) of
                  None \<Rightarrow> None
                | Some (x, rest) \<Rightarrow> Some (JNumber x, rest)))"
| "parseElements 0 s = None"
| "parseElements (Suc n) s =
     (case parseValue n s of
        None \<Rightarrow> None
      | Some (v, rest) \<Rightarrow>
          (case skipSpace rest of
             [] \<Rightarrow> None
           | d # ds \<Rightarrow>
               if d = CHR '','' then
                 (case parseElements n ds of
                    None \<Rightarrow> None
                  | Some (vs, rest') \<Rightarrow> Some (v # vs, rest'))
               else if d = CHR '']'' then Some ([v], ds)
               else None))"
| "parseMembers 0 s = None"
| "parseMembers (Suc n) s =
     (case skipSpace s of
        [] \<Rightarrow> None
      | q # qs \<Rightarrow>
          if q \<noteq> CHR 0x22 then None
          else
            (case unquote qs of
               None \<Rightarrow> None
             | Some (k, rest) \<Rightarrow>
                 (case skipSpace rest of
                    [] \<Rightarrow> None
                  | colon # rest1 \<Rightarrow>
                      if colon \<noteq> CHR '':'' then None
                      else
                        (case parseValue n rest1 of
                           None \<Rightarrow> None
                         | Some (v, rest2) \<Rightarrow>
                             (case skipSpace rest2 of
                                [] \<Rightarrow> None
                              | d # ds \<Rightarrow>
                                  if d = CHR '','' then
                                    (case parseMembers n ds of
                                       None \<Rightarrow> None
                                     | Some (kvs, rest3) \<Rightarrow> Some ((k, v) # kvs, rest3))
                                  else if d = CHR ''}'' then Some ([(k, v)], ds)
                                  else None)))))"

text \<open>A document is one value with nothing but white space around it.\<close>

definition parseJSON :: "string \<Rightarrow> json option" where
  "parseJSON s =
     (case parseValue (Suc (length s)) s of
        None \<Rightarrow> None
      | Some (v, rest) \<Rightarrow> if skipSpace rest = [] then Some v else None)"

text \<open>
  The records of a value, as decoding into a \<open>[]Program\<close> gives them: \<open>null\<close> is the nil
  slice, an array is the slice of its elements; an element is an object whose members
  set the fields they name (whatever the case of the letters A to Z, the later of two
  members for one field winning) or \<open>null\<close>; a member of another name is ignored; a
  field takes a string, and \<open>null\<close> leaves it as it is.
\<close>

definition setField :: "Program \<Rightarrow> string \<times> json \<Rightarrow> Program option" where
  "setField p kv =
     (let k = map asciiLower (fst kv); v = snd kv in
      if k \<noteq> ''name'' \<and> k \<noteq> ''version'' \<and> k \<noteq> ''path'' then Some p
      else
        (case v of
           JNull \<Rightarrow> Some p
         | JString x \<Rightarrow>
             Some (if k = ''name'' then p\<lparr>Name := x\<rparr>
                   else if k = ''version'' then p\<lparr>Version := x\<rparr>
                   else p\<lparr>Path := x\<rparr>)
         | _ \<Rightarrow> None))"

fun setFields :: "Program \<Rightarrow> (string \<times> json) list \<Rightarrow> Program option" where
  "setFields p [] = Some p"
| "setFields p (kv # kvs) =
     (case setField p kv of None \<Rightarrow> None | Some p' \<Rightarrow> setFields p' kvs)"

definition unmarshalProgram :: "json \<Rightarrow> Program option" where
  "unmarshalProgram v =
     (case v of
        JNull \<Rightarrow> Some zeroProgram
      | JObject kvs \<Rightarrow> setFields zeroProgram kvs
      | _ \<Rightarrow> None)"

fun unmarshalAll :: "json list \<Rightarrow> Program list option" where
  "unmarshalAll [] = Some []"
| "unmarshalAll (v # vs) =
     (case unmarshalProgram v of
        None \<Rightarrow> None
      | Some p \<Rightarrow> (case unmarshalAll vs of None \<Rightarrow> None | Some ps \<Rightarrow> Some (p # ps)))"

definition unmarshalPrograms :: "json \<Rightarrow> Program slice option" where
  "unmarshalPrograms v =
     (case v of
        JNull \<Rightarrow> Some nil_slice
      | JArray vs \<Rightarrow> (case unmarshalAll vs of None \<Rightarrow> None | Some ps \<Rightarrow> Some (Slice ps))
      | _ \<Rightarrow> None)"

definition decodePrograms :: "string \<Rightarrow> Program slice option" where
  "decodePrograms doc =
     (case parseJSON doc of None \<Rightarrow> None | Some v \<Rightarrow> unmarshalPrograms v)"

text \<open>
  A string as the encoder and the decoder together leave it: every byte that is not
  part of a valid encoding replaced by the encoding of U+FFFD. A string is valid UTF-8
  when that changes nothing in it, byte by byte.
\<close>

fun coerceUTF8 :: "string \<Rightarrow> string" where
  "coerceUTF8 [] = []"
| "coerceUTF8 (c # cs) =
     (case DecodeRuneInString (c # cs) of
        (r, width) \<Rightarrow>
          if r = RuneError \<and> width = 1 then [CHR 0xEF, CHR 0xBF, CHR 0xBD] @ coerceUTF8 cs
          else take width (c # cs) @ coerceUTF8 (drop (width - 1) cs))"

fun validUTF8 :: "string \<Rightarrow> bool" where
  "validUTF8 [] = True"
| "validUTF8 (c # cs) =
     (case DecodeRuneInString (c # cs) of
        (r, width) \<Rightarrow>
          if r = RuneError \<and> width = 1 then False else validUTF8 (drop (width - 1) cs))"

definition coerceProgram :: "Program \<Rightarrow> Program" where
  "coerceProgram p =
     \<lparr>Name = coerceUTF8 (Name p), Version = coerceUTF8 (Version p), Path = coerceUTF8 (Path p)\<rparr>"

definition validProgram :: "Program \<Rightarrow> bool" where
  "validProgram p = (validUTF8 (Name p) \<and> validUTF8 (Version p) \<and> validUTF8 (Path p))"

text \<open>The slice with every record coerced.\<close>

definition coercePrograms :: "Program slice \<Rightarrow> Program slice" where
  "coercePrograms programs =
     (case programs of nil_slice \<Rightarrow> nil_slice | Slice ps \<Rightarrow> Slice (map coerceProgram ps))"

section \<open>Properties\<close>

subsection \<open>White space\<close>

lemma spaceWidth_leading:
  "e \<in> set spaceEncodings \<Longrightarrow> spaceWidth spaceEncodings (e @ rest) = length e \<and> e \<noteq> []"
  unfolding spaceEncodings_def spaceWidth_def
  apply (simp only: set_simps insert_iff empty_iff)
  apply (elim disjE)
  apply simp_all
  done

lemma trimLeading_spaces:
  "set ws \<subseteq> set spaceEncodings \<Longrightarrow> trimLeading spaceEncodings (concat ws) = []"
proof (induction ws)
  case Nil
  show ?case by simp
next
  case (Cons e ws)
  from Cons.prems have e: "e \<in> set spaceEncodings" and ws: "set ws \<subseteq> set spaceEncodings"
    by auto
  from spaceWidth_leading [OF e, of "concat ws"]
  have width: "spaceWidth spaceEncodings (e @ concat ws) = length e" and ne: "e \<noteq> []"
    by auto
  from ne obtain c cs where ecs: "e = c # cs" by (cases e) auto
  have "trimLeading spaceEncodings (concat (e # ws))
          = trimLeading spaceEncodings (drop (length e - 1) (cs @ concat ws))"
    using width by (simp add: ecs)
  also have "\<dots> = trimLeading spaceEncodings (concat ws)"
    by (simp add: ecs)
  finally show ?case using Cons.IH [OF ws] by simp
qed

lemma TrimSpace_spaces: "set ws \<subseteq> set spaceEncodings \<Longrightarrow> TrimSpace (concat ws) = []"
  by (simp add: TrimSpace_def trimLeading_spaces)

lemma find_holds: "find P xs = Some x \<Longrightarrow> P x \<and> x \<in> set xs"
  by (induction xs) (auto split: if_splits)

lemma spaceWidth_found:
  "spaceWidth encs s \<noteq> 0 \<Longrightarrow>
     \<exists>e. e \<in> set encs \<and> prefix e s \<and> spaceWidth encs s = length e"
  by (auto simp: spaceWidth_def split: option.splits dest: find_holds)

lemma spaceWidth_none:
  assumes "[] \<notin> set encs" and "spaceWidth encs s = 0" and "e \<in> set encs"
  shows "\<not> prefix e s"
proof (cases "find (\<lambda>p. prefix p s) encs")
  case None
  then show ?thesis using assms(3) by (auto simp: find_None_iff)
next
  case (Some p)
  then have "p \<in> set encs" "length p = 0"
    using assms(2) find_holds [OF Some] by (auto simp: spaceWidth_def)
  with assms(1) show ?thesis by auto
qed

lemma trimLeading_step:
  assumes "spaceWidth encs (c # cs) \<noteq> 0"
  shows "\<exists>e. e \<in> set encs \<and> c # cs = e @ drop (spaceWidth encs (c # cs) - 1) cs"
proof -
  from spaceWidth_found [OF assms] obtain e
    where e: "e \<in> set encs" "prefix e (c # cs)" "spaceWidth encs (c # cs) = length e"
    by blast
  from e(2) obtain t where t: "c # cs = e @ t" by (auto simp: prefix_def)
  from assms e(3) obtain d ds where d: "e = d # ds" by (cases e) auto
  have "drop (length e - 1) cs = t" using t by (simp add: d)
  with e t show ?thesis by auto
qed

lemma trimLeading_removes:
  "\<exists>ws. set ws \<subseteq> set encs \<and> s = concat ws @ trimLeading encs s"
proof (induction encs s rule: trimLeading.induct)
  case (1 encs)
  have "set [] \<subseteq> set encs \<and> [] = concat [] @ trimLeading encs []" by simp
  then show ?case by blast
next
  case (2 encs c cs)
  show ?case
  proof (cases "spaceWidth encs (c # cs) = 0")
    case True
    then have "set [] \<subseteq> set encs \<and> c # cs = concat [] @ trimLeading encs (c # cs)" by simp
    then show ?thesis by blast
  next
    case False
    from trimLeading_step [OF False] obtain e
      where e: "e \<in> set encs" "c # cs = e @ drop (spaceWidth encs (c # cs) - 1) cs"
      by blast
    from 2 [OF False] obtain ws
      where ws: "set ws \<subseteq> set encs"
        "drop (spaceWidth encs (c # cs) - 1) cs
           = concat ws @ trimLeading encs (drop (spaceWidth encs (c # cs) - 1) cs)"
      by blast
    have "c # cs = concat (e # ws) @ trimLeading encs (c # cs)"
      using e(2) ws(2) False by simp
    with e(1) ws(1) have "set (e # ws) \<subseteq> set encs
        \<and> c # cs = concat (e # ws) @ trimLeading encs (c # cs)"
      by simp
    then show ?thesis by blast
  qed
qed

lemma trimLeading_clean: "spaceWidth encs (trimLeading encs s) = 0"
proof (induction encs s rule: trimLeading.induct)
  case (1 encs)
  show ?case by (auto simp: spaceWidth_def find_Some_iff split: option.splits)
next
  case (2 encs c cs)
  then show ?case by (cases "spaceWidth encs (c # cs) = 0") simp_all
qed

lemma no_empty_encoding: "[] \<notin> set spaceEncodings" "[] \<notin> set (map rev spaceEncodings)"
  by (simp_all add: spaceEncodings_def)

text \<open>What trimming does: it removes white-space runes from both ends, and leaves a
  string that neither starts nor ends with one.\<close>

lemma TrimSpace_surrounding:
  "(\<exists>a b. set a \<subseteq> set spaceEncodings \<and> set b \<subseteq> set spaceEncodings
          \<and> s = concat a @ TrimSpace s @ concat b)
   \<and> (\<forall>e \<in> set spaceEncodings. \<not> prefix e (TrimSpace s) \<and> \<not> suffix e (TrimSpace s))"
proof -
  define t where "t = trimLeading spaceEncodings s"
  define u where "u = trimLeading (map rev spaceEncodings) (rev t)"
  have T: "TrimSpace s = rev u" by (simp add: TrimSpace_def t_def u_def)
  obtain a where a: "set a \<subseteq> set spaceEncodings" "s = concat a @ t"
    using trimLeading_removes [of spaceEncodings s] unfolding t_def by blast
  obtain b' where b': "set b' \<subseteq> set (map rev spaceEncodings)" "rev t = concat b' @ u"
    using trimLeading_removes [of "map rev spaceEncodings" "rev t"] unfolding u_def by blast
  define b where "b = rev (map rev b')"
  have bs: "set b \<subseteq> set spaceEncodings"
    using b'(1) by (auto simp: b_def)
  have "t = rev (concat b' @ u)" using b'(2) by (metis rev_rev_ident)
  then have tb: "t = rev u @ concat b"
    by (simp add: b_def rev_concat rev_map)
  have mid: "s = concat a @ rev u @ concat b"
    using a(2) tb by simp
  have ct: "spaceWidth spaceEncodings t = 0" unfolding t_def by (rule trimLeading_clean)
  have cu: "spaceWidth (map rev spaceEncodings) u = 0" unfolding u_def by (rule trimLeading_clean)
  have "\<not> prefix e (rev u) \<and> \<not> suffix e (rev u)" if e: "e \<in> set spaceEncodings" for e
  proof
    have "\<not> prefix e t" using spaceWidth_none [OF no_empty_encoding(1) ct e] .
    then show "\<not> prefix e (rev u)" unfolding tb by (auto simp: prefix_def)
    have "rev e \<in> set (map rev spaceEncodings)" using e by simp
    from spaceWidth_none [OF no_empty_encoding(2) cu this]
    have "\<not> prefix (rev e) u" .
    then show "\<not> suffix e (rev u)" by (simp add: suffix_to_prefix)
  qed
  with a(1) bs mid show ?thesis unfolding T by blast
qed

subsection \<open>The scan of one root\<close>

lemma uninstall_neq: "uninstall64 \<noteq> uninstall32" "uninstall32 \<noteq> uninstall64"
  by (simp_all add: uninstall64_def uninstall32_def)

lemma Print_Print: "Print a (Print b w) = Print (b @ a) w"
  by (simp add: Print_def)

lemma Print_empty: "Print [] w = w"
  by (simp add: Print_def)

lemma scanSubkeys_programs:
  "fst (scanSubkeys reg key cnt i names programs w) =
     (if concat (map (extracted reg key) names) = [] then programs
      else Slice (elems programs @ concat (map (extracted reg key) names)))"
proof (induction names arbitrary: i programs w)
  case Nil
  show ?case by simp
next
  case (Cons n names)
  have e: "extracted reg key n =
             (case getProgramFromSubkey reg key n of
                (p, Some err) \<Rightarrow> []
              | (p, None) \<Rightarrow> if Name p \<noteq> [] then [p] else [])"
    by (simp add: extracted_def)
  show ?case
    by (cases "getProgramFromSubkey reg key n")
       (auto simp: Cons.IH e append1_def Let_def split: option.splits)
qed

text \<open>The loop changes the world by printing only, and what it prints does not
  depend on the world.\<close>

lemma scanSubkeys_world:
  "\<exists>out. \<forall>w. snd (scanSubkeys reg key cnt i names programs w) = Print out w"
proof (induction names arbitrary: i programs)
  case Nil
  have "\<forall>w. snd (scanSubkeys reg key cnt i [] programs w) = Print [] w"
    by (simp add: Print_empty)
  then show ?case ..
next
  case (Cons n names)
  define progress where
    "progress = (if i mod 50 = 0 \<and> i > 0
                 then ''  Processed '' @ itoa i @ ''/'' @ itoa cnt @ '' programs...'' @ nl else [])"
  define programs' where
    "programs' = (case getProgramFromSubkey reg key n of
                    (p, Some err) \<Rightarrow> programs
                  | (p, None) \<Rightarrow> if Name p \<noteq> [] then append1 programs p else programs)"
  have step: "scanSubkeys reg key cnt i (n # names) programs w
                = scanSubkeys reg key cnt (Suc i) names programs' (Print progress w)" for w
    by (cases "getProgramFromSubkey reg key n")
       (auto simp: progress_def programs'_def Let_def Print_empty split: option.splits)
  from Cons.IH [of "Suc i" programs'] obtain out
    where out: "\<forall>w. snd (scanSubkeys reg key cnt (Suc i) names programs' w) = Print out w" ..
  have "\<forall>w. snd (scanSubkeys reg key cnt i (n # names) programs w) = Print (progress @ out) w"
    by (simp add: step out Print_Print del: scanSubkeys.simps)
  then show ?case ..
qed

lemma scanRegistryLocation_world:
  "snd (scanRegistryLocation reg keyPath w) = Print (scanLog reg keyPath) w"
proof -
  have *: "\<exists>out. \<forall>w. snd (scanRegistryLocation reg keyPath w) = Print out w"
  proof (cases "OpenKey reg (LOCAL_MACHINE reg) keyPath (ENUMERATE_SUB_KEYS OR QUERY_VALUE)")
    case (Inl err)
    then show ?thesis by (auto simp: scanRegistryLocation_def)
  next
    case (Inr key)
    show ?thesis
    proof (cases "ReadSubKeyNames reg key (- 1)")
      case (Inl err)
      with Inr show ?thesis by (auto simp: scanRegistryLocation_def Print_Print)
    next
      case names: (Inr subkeyNames)
      from scanSubkeys_world [of reg key "length subkeyNames" 0 subkeyNames nil_slice]
      obtain out where out:
        "\<forall>w. snd (scanSubkeys reg key (length subkeyNames) 0 subkeyNames nil_slice w) = Print out w" ..
      show ?thesis
        using Inr names
        by (auto simp: scanRegistryLocation_def Let_def split_beta out Print_Print)
    qed
  qed
  then obtain out where out: "\<forall>w. snd (scanRegistryLocation reg keyPath w) = Print out w" ..
  then have "scanLog reg keyPath = out"
    by (simp add: scanLog_def Print_def)
  with out show ?thesis by simp
qed

lemma scanRegistryLocation_result:
  "fst (scanRegistryLocation reg keyPath w) =
     (case rootError reg keyPath of
        Some e \<Rightarrow> (nil_slice, Some e)
      | None \<Rightarrow> (sliceOf (rootRecords reg keyPath), None))"
  by (simp add: scanRegistryLocation_def rootError_def rootRecords_def sliceOf_def Let_def
        scanSubkeys_programs split_beta split: sum.splits)

lemma rootRecords_failed: "rootError reg keyPath = Some e \<Longrightarrow> rootRecords reg keyPath = []"
  by (auto simp: rootError_def rootRecords_def split: sum.splits)

lemma elems_sliceOf: "elems (sliceOf xs) = xs"
  by (simp add: sliceOf_def)

lemma len_sliceOf: "len (sliceOf xs) = length xs"
  by (simp add: len_def elems_sliceOf)

subsection \<open>The scan of both roots\<close>

lemma scanAllPrograms_result:
  "fst (scanAllPrograms reg w) =
     (sliceOf (rootRecords reg uninstall64 @ rootRecords reg uninstall32), None)"
  apply (simp add: scanAllPrograms_def Let_def split_beta scanRegistryLocation_result)
  apply (auto simp: appendAll_def sliceOf_def rootRecords_failed split: option.splits)
  done

lemma scanAllPrograms_stdout:
  "stdout (snd (scanAllPrograms reg w)) =
     stdout w
     @ ''Step 1: Scanning 64-bit programs...'' @ nl @ ''Location: '' @ uninstall64 @ nl
     @ scanLog reg uninstall64 @ rootReport reg uninstall64 ''64-bit''
     @ nl @ ''Step 2: Scanning 32-bit programs...'' @ nl @ ''Location: '' @ uninstall32 @ nl
     @ scanLog reg uninstall32 @ rootReport reg uninstall32 ''32-bit''"
proof -
  have r: "scanRegistryLocation reg p v =
             ((case rootError reg p of
                 Some e \<Rightarrow> (nil_slice, Some e)
               | None \<Rightarrow> (sliceOf (rootRecords reg p), None)), Print (scanLog reg p) v)" for p v
    by (metis prod.collapse scanRegistryLocation_result scanRegistryLocation_world)
  show ?thesis
    by (simp add: scanAllPrograms_def Let_def r rootReport_def len_sliceOf Print_def
          split: option.splits)
qed

lemmas store_eval = store_def fakeRegistry_def uninstall_neq extracted_def getProgramFromSubkey_def
  zeroProgram_def TrimSpace_def spaceEncodings_def spaceWidth_def rootRecords_def rootError_def

subsection \<open>Which children contribute\<close>

lemma extracted_named:
  "extracted reg key n =
     (if \<exists>subkey v. OpenKey reg key n QUERY_VALUE = Inr subkey
            \<and> GetStringValue reg subkey ''DisplayName'' = Inr v \<and> TrimSpace v \<noteq> []
      then [fst (getProgramFromSubkey reg key n)] else [])"
  by (auto simp: extracted_def getProgramFromSubkey_def Let_def split: sum.splits)

lemma extracted_filter:
  "concat (map (extracted reg key) names) =
     map (\<lambda>n. fst (getProgramFromSubkey reg key n))
       (filter (\<lambda>n. \<exists>subkey v. OpenKey reg key n QUERY_VALUE = Inr subkey
            \<and> GetStringValue reg subkey ''DisplayName'' = Inr v \<and> TrimSpace v \<noteq> []) names)"
  by (induction names) (simp_all add: extracted_named)

lemma extracted_Name: "p \<in> set (extracted reg key n) \<Longrightarrow> Name p \<noteq> []"
  by (auto simp: extracted_def split: prod.splits option.splits if_splits)

lemma rootRecords_Name: "p \<in> set (rootRecords reg keyPath) \<Longrightarrow> Name p \<noteq> []"
  by (auto simp: rootRecords_def extracted_Name split: sum.splits)

lemma rootRecords_listed:
  "OpenKey reg (LOCAL_MACHINE reg) keyPath (ENUMERATE_SUB_KEYS OR QUERY_VALUE) = Inr key
   \<Longrightarrow> ReadSubKeyNames reg key (- 1) = Inr names
   \<Longrightarrow> rootRecords reg keyPath = concat (map (extracted reg key) names)
       \<and> rootError reg keyPath = None"
  by (simp add: rootRecords_def rootError_def)

text \<open>
  C1. The scan returns the records of root A followed by the records of root B, and
  the records of a root are those of its children in the order in which the store lists
  them.
\<close>

theorem scanAllPrograms_roots_in_order:
  "elems (fst (fst (scanAllPrograms reg w)))
     = rootRecords reg uninstall64 @ rootRecords reg uninstall32
   \<and> (OpenKey reg (LOCAL_MACHINE reg) keyPath (ENUMERATE_SUB_KEYS OR QUERY_VALUE) = Inr key
        \<and> ReadSubKeyNames reg key (- 1) = Inr names
      \<longrightarrow> rootRecords reg keyPath = concat (map (extracted reg key) names))"
  by (simp add: scanAllPrograms_result elems_sliceOf rootRecords_listed)

theorem scanAllPrograms_roots_in_order_witness:
  "OpenKey scenario (LOCAL_MACHINE scenario) uninstall64 (ENUMERATE_SUB_KEYS OR QUERY_VALUE)
     = Inr [uninstall64]
   \<and> ReadSubKeyNames scenario [uninstall64] (- 1) = Inr [''C1'', ''C2'']
   \<and> rootRecords scenario uninstall64 = [alpha]
   \<and> elems (fst (fst (scanAllPrograms scenario emptyWorld))) = [alpha, beta]"
  using scanAllPrograms_roots_in_order
          [of scenario emptyWorld uninstall64 "[uninstall64]" "[''C1'', ''C2'']"]
  by (simp add: scenario_def store_eval alpha_def beta_def)

text \<open>
  C2. The scan returns, for root A and then for root B, one record for each child whose
  subkey opens, whose display name can be read and whose trimmed name is not empty, in
  the listed order, and no record for any other child; a root that cannot be opened or
  listed gives none. The same holds of the scan of one root that opens and lists its
  children. Hence every record the scan returns has a name that is not empty, and a
  child whose display name cannot be read is in no result, whatever its other fields
  are. The record of a child has the trimmed display name as its name, and a trimmed
  string neither starts nor ends with a white-space rune.
\<close>

theorem named_children_contribute:
  "elems (fst (fst (scanAllPrograms reg w)))
     = (case OpenKey reg (LOCAL_MACHINE reg) uninstall64 (ENUMERATE_SUB_KEYS OR QUERY_VALUE) of
          Inl err \<Rightarrow> []
        | Inr keyA \<Rightarrow>
            (case ReadSubKeyNames reg keyA (- 1) of
               Inl err \<Rightarrow> []
             | Inr namesA \<Rightarrow>
                 map (\<lambda>n. fst (getProgramFromSubkey reg keyA n))
                   (filter (\<lambda>n. \<exists>subkey v. OpenKey reg keyA n QUERY_VALUE = Inr subkey
                                   \<and> GetStringValue reg subkey ''DisplayName'' = Inr v
                                   \<and> TrimSpace v \<noteq> []) namesA)))
       @ (case OpenKey reg (LOCAL_MACHINE reg) uninstall32 (ENUMERATE_SUB_KEYS OR QUERY_VALUE) of
            Inl err \<Rightarrow> []
          | Inr keyB \<Rightarrow>
              (case ReadSubKeyNames reg keyB (- 1) of
                 Inl err \<Rightarrow> []
               | Inr namesB \<Rightarrow>
                   map (\<lambda>n. fst (getProgramFromSubkey reg keyB n))
                     (filter (\<lambda>n. \<exists>subkey v. OpenKey reg keyB n QUERY_VALUE = Inr subkey
                                     \<and> GetStringValue reg subkey ''DisplayName'' = Inr v
                                     \<and> TrimSpace v \<noteq> []) namesB)))
   \<and> (OpenKey reg (LOCAL_MACHINE reg) keyPath (ENUMERATE_SUB_KEYS OR QUERY_VALUE) = Inr key
      \<and> ReadSubKeyNames reg key (- 1) = Inr names
    \<longrightarrow> elems (fst (fst (scanRegistryLocation reg keyPath w)))
          = map (\<lambda>n. fst (getProgramFromSubkey reg key n))
              (filter (\<lambda>n. \<exists>subkey v. OpenKey reg key n QUERY_VALUE = Inr subkey
                              \<and> GetStringValue reg subkey ''DisplayName'' = Inr v
                              \<and> TrimSpace v \<noteq> []) names))
   \<and> (\<forall>p \<in> set (elems (fst (fst (scanAllPrograms reg w)))). Name p \<noteq> [])
   \<and> (\<forall>subkey v. OpenKey reg key n QUERY_VALUE = Inr subkey
         \<and> GetStringValue reg subkey ''DisplayName'' = Inr v
       \<longrightarrow> Name (fst (getProgramFromSubkey reg key n)) = TrimSpace v)
   \<and> (\<forall>e \<in> set spaceEncodings. \<not> prefix e (TrimSpace s) \<and> \<not> suffix e (TrimSpace s))"
proof -
  have named: "Name p \<noteq> []" if "p \<in> set (elems (fst (fst (scanAllPrograms reg w))))" for p
    using that by (auto simp: scanAllPrograms_result elems_sliceOf rootRecords_Name)
  have root: "rootRecords reg path
      = (case OpenKey reg (LOCAL_MACHINE reg) path (ENUMERATE_SUB_KEYS OR QUERY_VALUE) of
           Inl err \<Rightarrow> []
         | Inr k \<Rightarrow>
             (case ReadSubKeyNames reg k (- 1) of
                Inl err \<Rightarrow> []
              | Inr ns \<Rightarrow>
                  map (\<lambda>n. fst (getProgramFromSubkey reg k n))
                    (filter (\<lambda>n. \<exists>subkey v. OpenKey reg k n QUERY_VALUE = Inr subkey
                                    \<and> GetStringValue reg subkey ''DisplayName'' = Inr v
                                    \<and> TrimSpace v \<noteq> []) ns)))" for path
    by (simp add: rootRecords_def extracted_filter split: sum.splits)
  have both: "elems (fst (fst (scanAllPrograms reg w)))
      = rootRecords reg uninstall64 @ rootRecords reg uninstall32"
    by (simp add: scanAllPrograms_result elems_sliceOf)
  have one: "elems (fst (fst (scanRegistryLocation reg keyPath w)))
          = map (\<lambda>n. fst (getProgramFromSubkey reg key n))
              (filter (\<lambda>n. \<exists>subkey v. OpenKey reg key n QUERY_VALUE = Inr subkey
                              \<and> GetStringValue reg subkey ''DisplayName'' = Inr v
                              \<and> TrimSpace v \<noteq> []) names)"
    if "OpenKey reg (LOCAL_MACHINE reg) keyPath (ENUMERATE_SUB_KEYS OR QUERY_VALUE) = Inr key"
      and "ReadSubKeyNames reg key (- 1) = Inr names"
    using that
    by (simp add: scanRegistryLocation_result rootRecords_listed elems_sliceOf extracted_filter)
  have name: "Name (fst (getProgramFromSubkey reg key n)) = TrimSpace v"
    if "OpenKey reg key n QUERY_VALUE = Inr subkey"
      and "GetStringValue reg subkey ''DisplayName'' = Inr v" for subkey v
    using that by (simp add: getProgramFromSubkey_def zeroProgram_def Let_def split: sum.splits)
  have trim: "\<forall>e \<in> set spaceEncodings. \<not> prefix e (TrimSpace s) \<and> \<not> suffix e (TrimSpace s)"
    using TrimSpace_surrounding [of s] by blast
  show ?thesis
  proof (intro conjI)
    show "\<forall>p \<in> set (elems (fst (fst (scanAllPrograms reg w)))). Name p \<noteq> []"
      using named by blast
    show "\<forall>e \<in> set spaceEncodings. \<not> prefix e (TrimSpace s) \<and> \<not> suffix e (TrimSpace s)"
      by (rule trim)
    show "OpenKey reg (LOCAL_MACHINE reg) keyPath (ENUMERATE_SUB_KEYS OR QUERY_VALUE) = Inr key
        \<and> ReadSubKeyNames reg key (- 1) = Inr names
      \<longrightarrow> elems (fst (fst (scanRegistryLocation reg keyPath w)))
            = map (\<lambda>n. fst (getProgramFromSubkey reg key n))
                (filter (\<lambda>n. \<exists>subkey v. OpenKey reg key n QUERY_VALUE = Inr subkey
                                \<and> GetStringValue reg subkey ''DisplayName'' = Inr v
                                \<and> TrimSpace v \<noteq> []) names)"
      using one by blast
    show "\<forall>subkey v. OpenKey reg key n QUERY_VALUE = Inr subkey
         \<and> GetStringValue reg subkey ''DisplayName'' = Inr v
       \<longrightarrow> Name (fst (getProgramFromSubkey reg key n)) = TrimSpace v"
      using name by blast
  qed (simp only: both root)
qed

theorem named_children_contribute_witness:
  "OpenKey scenario (LOCAL_MACHINE scenario) uninstall64 (ENUMERATE_SUB_KEYS OR QUERY_VALUE)
     = Inr [uninstall64]
   \<and> ReadSubKeyNames scenario [uninstall64] (- 1) = Inr [''C1'', ''C2'']
   \<and> OpenKey scenario (LOCAL_MACHINE scenario) uninstall32 (ENUMERATE_SUB_KEYS OR QUERY_VALUE)
     = Inr [uninstall32]
   \<and> ReadSubKeyNames scenario [uninstall32] (- 1) = Inr [''C3'']
   \<and> OpenKey scenario [uninstall64] ''C2'' QUERY_VALUE = Inr [uninstall64, ''C2'']
   \<and> GetStringValue scenario [uninstall64, ''C2''] ''DisplayName'' = Inl notFound
   \<and> GetStringValue scenario [uninstall64, ''C2''] ''DisplayVersion'' = Inr ''7''
   \<and> elems (fst (fst (scanAllPrograms scenario emptyWorld))) = [alpha, beta]
   \<and> elems (fst (fst (scanRegistryLocation scenario uninstall64 emptyWorld))) = [alpha]
   \<and> list_all (\<lambda>p. Name p \<noteq> []) (elems (fst (fst (scanAllPrograms scenario emptyWorld))))
   \<and> OpenKey (store None None) [uninstall64] ''C4'' QUERY_VALUE = Inr [uninstall64, ''C4'']
   \<and> GetStringValue (store None None) [uninstall64, ''C4''] ''DisplayName'' = Inr ''  Foo  ''
   \<and> Name (fst (getProgramFromSubkey (store None None) [uninstall64] ''C4'')) = ''Foo''
   \<and> \<not> prefix '' '' (TrimSpace ''  Foo  '') \<and> \<not> suffix '' '' (TrimSpace ''  Foo  '')"
proof -
  have sp: "'' '' \<in> set spaceEncodings"
    by (simp add: spaceEncodings_def)
  have t: "TrimSpace ''  Foo  '' = ''Foo''"
    by (simp add: TrimSpace_def spaceEncodings_def spaceWidth_def)
  from named_children_contribute
         [of scenario emptyWorld uninstall64 "[uninstall64]" "[''C1'', ''C2'']" "''C4''" "''  Foo  ''"]
    named_children_contribute
         [of "store None None" emptyWorld uninstall64 "[uninstall64]" "[]" "''C4''" "''  Foo  ''"]
  show ?thesis
    using sp by (simp add: scenario_def store_eval alpha_def beta_def list_all_iff t)
qed

text \<open>
  C3, as the code has it. A child whose display name is present but is white space only
  (or empty) contributes no record: the loop goes on with the programs it had.
\<close>

theorem blank_name_skipped:
  assumes "OpenKey reg key n QUERY_VALUE = Inr subkey"
    and "GetStringValue reg subkey ''DisplayName'' = Inr (concat ws)"
    and "set ws \<subseteq> set spaceEncodings"
  shows "extracted reg key n = []
       \<and> fst (scanSubkeys reg key cnt i (n # rest) programs w)
           = fst (scanSubkeys reg key cnt (i + 1) rest programs w)"
proof -
  have "extracted reg key n = []"
    using assms by (simp add: extracted_named TrimSpace_spaces)
  then show ?thesis
    by (simp add: scanSubkeys_programs del: scanSubkeys.simps)
qed

theorem blank_name_skipped_witness:
  "OpenKey (store (Some (Some [''C5''])) None) [uninstall64] ''C5'' QUERY_VALUE
     = Inr [uninstall64, ''C5'']
   \<and> GetStringValue (store (Some (Some [''C5''])) None) [uninstall64, ''C5''] ''DisplayName''
     = Inr (concat ['' '', '' '', '' ''])
   \<and> set ['' '', '' '', '' ''] \<subseteq> set spaceEncodings
   \<and> fst (scanSubkeys (store (Some (Some [''C5''])) None) [uninstall64] 1 0 [''C5'']
          nil_slice emptyWorld) = nil_slice"
  using blank_name_skipped
          [of "store (Some (Some [''C5''])) None" "[uninstall64]" "''C5''" "[uninstall64, ''C5'']"
              "['' '', '' '', '' '']" 1 0 "[]" nil_slice emptyWorld]
  by (simp add: store_def fakeRegistry_def uninstall_neq spaceEncodings_def)

theorem blank_name_kept_counterexample:
  "GetStringValue (store (Some (Some [''C5''])) (Some (Some []))) [uninstall64, ''C5'']
     ''DisplayName'' = Inr ''   ''
   \<and> fst (scanAllPrograms (store (Some (Some [''C5''])) (Some (Some []))) emptyWorld)
       = (nil_slice, None)"
  by (simp add: scanAllPrograms_result sliceOf_def store_eval)

text \<open>
  C4. A child that yields a record has a subkey that opens and a display name that can
  be read; the record's name is that display name trimmed, and its version and its path
  are the trimmed fields, or empty when the field cannot be read. Trimming a string
  removes white-space runes from its two ends and leaves a string that neither starts
  nor ends with one.
\<close>

theorem record_fields_trimmed:
  "(getProgramFromSubkey reg key n = (p, None) \<longrightarrow>
      (\<exists>subkey v. OpenKey reg key n QUERY_VALUE = Inr subkey
         \<and> GetStringValue reg subkey ''DisplayName'' = Inr v
         \<and> Name p = TrimSpace v
         \<and> Version p = (case GetStringValue reg subkey ''DisplayVersion'' of
                          Inl err \<Rightarrow> [] | Inr version \<Rightarrow> TrimSpace version)
         \<and> Path p = (case GetStringValue reg subkey ''InstallLocation'' of
                       Inl err \<Rightarrow> [] | Inr path \<Rightarrow> TrimSpace path)))
   \<and> (\<exists>a b. set a \<subseteq> set spaceEncodings \<and> set b \<subseteq> set spaceEncodings
          \<and> s = concat a @ TrimSpace s @ concat b)
   \<and> (\<forall>e \<in> set spaceEncodings. \<not> prefix e (TrimSpace s) \<and> \<not> suffix e (TrimSpace s))"
proof -
  have "\<exists>subkey v. OpenKey reg key n QUERY_VALUE = Inr subkey
         \<and> GetStringValue reg subkey ''DisplayName'' = Inr v
         \<and> Name p = TrimSpace v
         \<and> Version p = (case GetStringValue reg subkey ''DisplayVersion'' of
                          Inl err \<Rightarrow> [] | Inr version \<Rightarrow> TrimSpace version)
         \<and> Path p = (case GetStringValue reg subkey ''InstallLocation'' of
                       Inl err \<Rightarrow> [] | Inr path \<Rightarrow> TrimSpace path)"
    if "getProgramFromSubkey reg key n = (p, None)"
    using that
    by (auto simp: getProgramFromSubkey_def zeroProgram_def Let_def split: sum.splits)
  then show ?thesis
    using TrimSpace_surrounding [of s] by blast
qed

theorem record_fields_trimmed_witness:
  "getProgramFromSubkey (store None None) [uninstall64] ''C4''
     = (\<lparr>Name = ''Foo'', Version = [], Path = []\<rparr>, None)
   \<and> GetStringValue (store None None) [uninstall64, ''C4''] ''DisplayName'' = Inr ''  Foo  ''
   \<and> GetStringValue (store None None) [uninstall64, ''C4''] ''DisplayVersion'' = Inl notFound
   \<and> TrimSpace ''  Foo  '' = ''Foo''
   \<and> ''  Foo  '' = concat ['' '', '' ''] @ TrimSpace ''  Foo  '' @ concat ['' '', '' '']"
proof -
  have g: "getProgramFromSubkey (store None None) [uninstall64] ''C4''
             = (\<lparr>Name = ''Foo'', Version = [], Path = []\<rparr>, None)"
    by (simp add: store_eval)
  from record_fields_trimmed
         [of "store None None" "[uninstall64]" "''C4''" "\<lparr>Name = ''Foo'', Version = [], Path = []\<rparr>"
             "''  Foo  ''"]
  show ?thesis
    by (simp add: g) (simp add: store_eval)
qed

subsection \<open>Failing roots\<close>

lemma warning_printed:
  "rootError reg keyPath = Some e \<Longrightarrow>
     rootReport reg keyPath bits = ''Warning: Could not scan '' @ bits @ '' programs: '' @ e @ nl"
  by (simp add: rootReport_def)

text \<open>
  C5. The scan never returns an error. When root A cannot be opened or listed, the
  warning for it is printed, the result holds the records of root B and nothing else,
  and it is the result of any store in which root A opens with no records and root B
  has the same records; the same with the roots exchanged; when both fail the result
  is the nil slice.
\<close>

theorem root_failure_is_a_warning:
  fixes reg :: "'h registry" and reg' :: "'g registry"
  shows
  "snd (fst (scanAllPrograms reg w)) = None
   \<and> (rootError reg uninstall64 = Some e \<longrightarrow>
        sublist (''Warning: Could not scan 64-bit programs: '' @ e @ nl)
          (stdout (snd (scanAllPrograms reg w)))
        \<and> elems (fst (fst (scanAllPrograms reg w))) = rootRecords reg uninstall32
        \<and> (rootError reg' uninstall64 = None \<and> rootRecords reg' uninstall64 = []
             \<and> rootRecords reg' uninstall32 = rootRecords reg uninstall32
           \<longrightarrow> fst (scanAllPrograms reg' w') = fst (scanAllPrograms reg w)))
   \<and> (rootError reg uninstall32 = Some e \<longrightarrow>
        sublist (''Warning: Could not scan 32-bit programs: '' @ e @ nl)
          (stdout (snd (scanAllPrograms reg w)))
        \<and> elems (fst (fst (scanAllPrograms reg w))) = rootRecords reg uninstall64
        \<and> (rootError reg' uninstall32 = None \<and> rootRecords reg' uninstall32 = []
             \<and> rootRecords reg' uninstall64 = rootRecords reg uninstall64
           \<longrightarrow> fst (scanAllPrograms reg' w') = fst (scanAllPrograms reg w)))
   \<and> (rootError reg uninstall64 = Some e \<and> rootError reg uninstall32 = Some e'
      \<longrightarrow> fst (scanAllPrograms reg w) = (nil_slice, None))"
proof -
  have noerr: "snd (fst (scanAllPrograms reg w)) = None"
    by (simp add: scanAllPrograms_result)
  have a: "sublist (''Warning: Could not scan 64-bit programs: '' @ e @ nl)
             (stdout (snd (scanAllPrograms reg w)))"
    if f: "rootError reg uninstall64 = Some e"
  proof -
    have t: "rootReport reg uninstall64 ''64-bit''
               = ''Warning: Could not scan 64-bit programs: '' @ e @ nl"
      by (simp add: warning_printed [OF f])
    show ?thesis
      unfolding sublist_def scanAllPrograms_stdout t
      by (metis append.assoc)
  qed
  have b: "sublist (''Warning: Could not scan 32-bit programs: '' @ e @ nl)
             (stdout (snd (scanAllPrograms reg w)))"
    if f: "rootError reg uninstall32 = Some e"
  proof -
    have t: "rootReport reg uninstall32 ''32-bit''
               = ''Warning: Could not scan 32-bit programs: '' @ e @ nl"
      by (simp add: warning_printed [OF f])
    show ?thesis
      unfolding sublist_def scanAllPrograms_stdout t
      by (metis append.assoc append_Nil2)
  qed
  show ?thesis
    using a b noerr
    by (auto simp: scanAllPrograms_result elems_sliceOf rootRecords_failed sliceOf_def)
qed

theorem root_failure_is_a_warning_witness:
  "rootError (store None (Some (Some [''C3'']))) uninstall64
     = Some (''failed to open registry key: '' @ notFound)
   \<and> rootError (store (Some (Some [])) (Some (Some [''C3'']))) uninstall64 = None
   \<and> rootError (store (Some (Some [''C1''])) (Some None)) uninstall32
     = Some (''failed to read subkey names: '' @ accessDenied)
   \<and> fst (scanAllPrograms (store None (Some (Some [''C3'']))) emptyWorld) = (Slice [beta], None)
   \<and> fst (scanAllPrograms (store (Some (Some [])) (Some (Some [''C3'']))) emptyWorld)
       = (Slice [beta], None)
   \<and> fst (scanAllPrograms (store (Some (Some [''C1''])) (Some None)) emptyWorld)
       = (Slice [alpha], None)
   \<and> fst (scanAllPrograms (store None None) emptyWorld) = (nil_slice, None)
   \<and> sublist (''Warning: Could not scan 64-bit programs: failed to open registry key: ''
               @ notFound @ nl)
        (stdout (snd (scanAllPrograms (store None (Some (Some [''C3'']))) emptyWorld)))"
proof -
  let ?r = "store None (Some (Some [''C3'']))"
  let ?r' = "store (Some (Some [])) (Some (Some [''C3'']))"
  have e: "rootError ?r uninstall64 = Some (''failed to open registry key: '' @ notFound)"
    by (simp add: store_eval)
  have e': "rootError ?r' uninstall64 = None"
    by (simp add: store_eval)
  have r1: "rootRecords ?r' uninstall64 = []"
    by (simp add: store_eval)
  have r2: "rootRecords ?r' uninstall32 = rootRecords ?r uninstall32"
    by (simp add: store_eval)
  have r3: "rootRecords ?r uninstall32 = [beta]"
    by (simp add: store_eval beta_def)
  have e3: "rootError (store (Some (Some [''C1''])) (Some None)) uninstall32
              = Some (''failed to read subkey names: '' @ accessDenied)"
    by (simp add: store_eval)
  have r4: "fst (scanAllPrograms (store (Some (Some [''C1''])) (Some None)) emptyWorld)
              = (Slice [alpha], None)"
    by (simp add: scanAllPrograms_result sliceOf_def store_eval alpha_def)
  have r5: "fst (scanAllPrograms (store None None) emptyWorld) = (nil_slice, None)"
    by (simp add: scanAllPrograms_result sliceOf_def store_eval)
  have r6: "fst (scanAllPrograms ?r emptyWorld) = (Slice [beta], None)"
    by (simp add: scanAllPrograms_result sliceOf_def store_eval beta_def)
  from root_failure_is_a_warning
         [of ?r emptyWorld "''failed to open registry key: '' @ notFound" ?r' emptyWorld]
  show ?thesis
    using e e' r1 r2 e3 r4 r5 r6 by simp
qed

text \<open>
  C9. The scan returns no error whatever the store does, and the nil slice when both
  roots fail; the process ends with a status other than 0 exactly when the command
  framework rejects the command line, so a scan ends with status 0.
\<close>

theorem scan_warnings_exit_zero:
  "snd (fst (scanAllPrograms reg w)) = None
   \<and> (rootError reg uninstall64 \<noteq> None \<and> rootError reg uninstall32 \<noteq> None
      \<longrightarrow> fst (fst (scanAllPrograms reg w)) = nil_slice)
   \<and> fst (Execute reg fs mapLower (RunScan outputFile) w) = 0
   \<and> (fst (Execute reg fs mapLower d w) \<noteq> 0 \<longleftrightarrow> (\<exists>err. d = Rejected err))"
proof -
  have "fst (fst (scanAllPrograms reg w)) = nil_slice"
    if "rootError reg uninstall64 \<noteq> None" "rootError reg uninstall32 \<noteq> None"
    using that by (auto simp: scanAllPrograms_result sliceOf_def rootRecords_failed)
  moreover have "fst (Execute reg fs mapLower d w) \<noteq> 0 \<longleftrightarrow> (\<exists>err. d = Rejected err)"
    by (cases d) (simp_all add: Execute_def rootCmd_Execute_def)
  moreover have "fst (Execute reg fs mapLower (RunScan outputFile) w) = 0"
    by (simp add: Execute_def rootCmd_Execute_def)
  ultimately show ?thesis
    by (simp add: scanAllPrograms_result)
qed

theorem scan_warnings_exit_zero_witness:
  "rootError (store None (Some None)) uninstall64 \<noteq> None
   \<and> rootError (store None (Some None)) uninstall32 \<noteq> None
   \<and> fst (scanAllPrograms (store None (Some None)) emptyWorld) = (nil_slice, None)
   \<and> fst (Execute (store None (Some None)) okfs (\<lambda>s. s) (RunScan []) emptyWorld) = 0
   \<and> fst (Execute (store None (Some None)) okfs (\<lambda>s. s) (Rejected ''unknown flag: --x'')
             emptyWorld) = 1"
proof -
  let ?r = "store None (Some None)"
  have e: "rootError ?r uninstall64 \<noteq> None" "rootError ?r uninstall32 \<noteq> None"
    by (simp_all add: store_eval)
  have x: "fst (Execute ?r okfs (\<lambda>s. s) (Rejected ''unknown flag: --x'') emptyWorld) = 1"
    by (simp add: Execute_def rootCmd_Execute_def)
  from scan_warnings_exit_zero [of ?r emptyWorld okfs "\<lambda>s. s" "[]" "Rejected ''unknown flag: --x''"]
  show ?thesis
    using e x by (simp add: prod_eq_iff)
qed

subsection \<open>Writing files and printing\<close>

lemma os_Create_ok:
  "createError fs f = None \<Longrightarrow> os_Create fs f w = (Inr f, w\<lparr>files := (files w)(f \<mapsto> [])\<rparr>)"
  by (simp add: os_Create_def)

lemma Fprintf_ok:
  "writeError fs f = None \<Longrightarrow> files w f = Some old \<Longrightarrow>
     files (Fprintf fs f s w) f = Some (old @ s)"
  by (simp add: Fprintf_def file_Write_def)

lemma programBlocks_Nil: "programBlocks i [] = []"
  by (simp add: programBlocks_def)

lemma programBlocks_Cons: "programBlocks i (p # ps) = programBlock i p @ programBlocks (Suc i) ps"
  by (simp add: programBlocks_def)

lemma writePrograms_file:
  "writeError fs f = None \<Longrightarrow> files w f = Some old \<Longrightarrow>
     files (writePrograms fs f i ps w) f = Some (old @ programBlocks i ps)"
proof (induction ps arbitrary: i w old)
  case Nil
  then show ?case by (simp add: programBlocks_Nil)
next
  case (Cons p ps)
  let ?w5 = "Fprintf fs f nl
      ((if Path p \<noteq> [] then Fprintf fs f (''   Path: '' @ Path p @ nl) else id)
        (Fprintf fs f nl
          ((if Version p \<noteq> [] then Fprintf fs f ('' (v'' @ Version p @ '')'') else id)
            (Fprintf fs f (itoa (i + 1) @ ''. '' @ Name p) w))))"
  have step: "writePrograms fs f i (p # ps) w = writePrograms fs f (Suc i) ps ?w5"
    by (simp add: Let_def)
  have w5: "files ?w5 f = Some (old @ programBlock i p)"
    using Cons.prems by (simp add: Fprintf_ok programBlock_def)
  have "files (writePrograms fs f (Suc i) ps ?w5) f
          = Some ((old @ programBlock i p) @ programBlocks (Suc i) ps)"
    by (rule Cons.IH [OF Cons.prems(1) w5])
  then show ?case
    by (simp only: step programBlocks_Cons append_assoc)
qed

lemma displayPrograms_Print: "displayPrograms i ps w = Print (programBlocks i ps) w"
proof (induction ps arbitrary: i w)
  case Nil
  show ?case by (simp add: programBlocks_Nil Print_empty)
next
  case (Cons p ps)
  show ?case
    by (simp add: Let_def Cons.IH Print_Print programBlocks_Cons programBlock_def)
qed

lemma saveToText_ok:
  assumes "createError fs f = None" and "writeError fs f = None"
  shows "fst (saveToText fs programs f w) = None"
    and "files (snd (saveToText fs programs f w)) f = Some (textReport programs)"
proof -
  let ?w1 = "w\<lparr>files := (files w)(f \<mapsto> [])\<rparr>"
  let ?w5 = "Fprintf fs f (replicate 50 (CHR ''='') @ nl @ nl)
      (Fprintf fs f (''Total programs found: '' @ itoa (len programs) @ nl)
        (Fprintf fs f (''Generated on: '' @ ''2025-01-14'' @ nl)
          (Fprintf fs f (''WinClone - Installed Programs List'' @ nl) ?w1)))"
  have s: "saveToText fs programs f w = (None, writePrograms fs f 0 (elems programs) ?w5)"
    by (simp add: saveToText_def os_Create_ok [OF assms(1)] Let_def)
  have w5: "files ?w5 f = Some (''WinClone - Installed Programs List'' @ nl
     @ ''Generated on: 2025-01-14'' @ nl
     @ ''Total programs found: '' @ itoa (length (elems programs)) @ nl
     @ replicate 50 (CHR ''='') @ nl @ nl)"
    by (simp add: Fprintf_ok [OF assms(2)] len_def)
  show "fst (saveToText fs programs f w) = None" by (simp add: s)
  from writePrograms_file [OF assms(2) w5, of 0 "elems programs"]
  show "files (snd (saveToText fs programs f w)) f = Some (textReport programs)"
    by (simp add: s textReport_def)
qed

lemma saveToJSON_ok:
  assumes "createError fs f = None" and "writeError fs f = None"
  shows "fst (saveToJSON fs programs f w) = None"
    and "files (snd (saveToJSON fs programs f w)) f = Some (jsonDocument programs)"
  using assms
  by (simp_all add: saveToJSON_def os_Create_ok Encode_def file_Write_def jsonDocument_def)

lemma displayResults_stdout:
  "stdout (displayResults programs w) =
     stdout w @ nl @ replicate 50 (CHR ''='') @ nl
     @ ''SCAN COMPLETE!'' @ nl
     @ ''Found '' @ itoa (length (elems programs)) @ '' installed programs:'' @ nl
     @ replicate 50 (CHR ''='') @ nl @ nl
     @ programBlocks 0 (elems programs)"
  by (simp add: displayResults_def Let_def displayPrograms_Print Print_def len_def)

lemma files_Print: "files (Print s w) = files w"
  by (simp add: Print_def)

subsection \<open>The choice of the export\<close>

lemma exportResults_console:
  "exportResults fs mapLower programs [] w = displayResults programs w"
  by (simp add: exportResults_def)

lemma exportResults_json:
  assumes "outputFile \<noteq> []" and "HasSuffix (ToLower mapLower outputFile) ''.json''"
    and "createError fs outputFile = None" and "writeError fs outputFile = None"
  shows "files (exportResults fs mapLower programs outputFile w) outputFile
           = Some (jsonDocument programs)"
  using assms saveToJSON_ok [OF assms(3,4), of programs w]
  by (simp add: exportResults_def split_beta files_Print split: option.splits)

lemma exportResults_text:
  assumes "outputFile \<noteq> []" and "\<not> HasSuffix (ToLower mapLower outputFile) ''.json''"
    and "createError fs outputFile = None" and "writeError fs outputFile = None"
  shows "files (exportResults fs mapLower programs outputFile w) outputFile
           = Some (textReport programs)"
  using assms saveToText_ok [OF assms(3,4), of programs w]
  by (simp add: exportResults_def split_beta files_Print split: option.splits)

lemma documents_differ: "jsonDocument programs \<noteq> textReport programs"
  by (cases programs) (simp_all add: jsonDocument_def textReport_def)

lemma HasSuffix_ascii:
  "isASCII s \<Longrightarrow>
     HasSuffix (ToLower mapLower s) ''.json''
       = (5 \<le> length s \<and> map asciiLower (drop (length s - 5) s) = ''.json'')"
  by (simp add: HasSuffix_def ToLower_def drop_map eval_nat_numeral)

lemma lower_letters:
  "char_of (106 :: nat) = CHR ''j''" "char_of (115 :: nat) = CHR ''s''"
  "char_of (111 :: nat) = CHR ''o''" "char_of (110 :: nat) = CHR ''n''"
  by code_simp+

lemma lower_JSON: "HasSuffix (ToLower mapLower ''out.JSON'') ''.json''"
  by (simp add: HasSuffix_def ToLower_def isASCII_def asciiLower_def lower_letters)

lemma separator_line:
  "replicate 50 (CHR ''='') = ''==================================================''"
  by code_simp

text \<open>
  C8. On a file that can be created and written, the text export returns no error and
  leaves in the file the title line, the date line, the line with the number of
  programs, the line of 50 equals signs and an empty line, and then the block of every
  program in order; the console listing ends with the same blocks. A block is the
  1-based index and the name, the version in parentheses when there is one, the path
  line when there is one, and an empty line.
\<close>

theorem text_export_format:
  assumes "createError fs filename = None" and "writeError fs filename = None"
  shows
  "fst (saveToText fs programs filename w) = None
   \<and> files (snd (saveToText fs programs filename w)) filename
       = Some (''WinClone - Installed Programs List'' @ nl
               @ ''Generated on: 2025-01-14'' @ nl
               @ ''Total programs found: '' @ itoa (length (elems programs)) @ nl
               @ replicate 50 (CHR ''='') @ nl
               @ nl
               @ concat (map (\<lambda>(i, p). programBlock i p) (enumerate 0 (elems programs))))
   \<and> stdout (displayResults programs w)
       = stdout w @ nl @ replicate 50 (CHR ''='') @ nl
         @ ''SCAN COMPLETE!'' @ nl
         @ ''Found '' @ itoa (length (elems programs)) @ '' installed programs:'' @ nl
         @ replicate 50 (CHR ''='') @ nl @ nl
         @ concat (map (\<lambda>(i, p). programBlock i p) (enumerate 0 (elems programs)))
   \<and> programBlock k q
       = itoa (k + 1) @ ''. '' @ Name q
         @ (if Version q = [] then [] else '' (v'' @ Version q @ '')'') @ nl
         @ (if Path q = [] then [] else ''   Path: '' @ Path q @ nl)
         @ nl"
proof -
  have "programBlock k q
       = itoa (k + 1) @ ''. '' @ Name q
         @ (if Version q = [] then [] else '' (v'' @ Version q @ '')'') @ nl
         @ (if Path q = [] then [] else ''   Path: '' @ Path q @ nl)
         @ nl"
    by (simp add: programBlock_def)
  moreover have "files (snd (saveToText fs programs filename w)) filename
       = Some (''WinClone - Installed Programs List'' @ nl
               @ ''Generated on: 2025-01-14'' @ nl
               @ ''Total programs found: '' @ itoa (length (elems programs)) @ nl
               @ replicate 50 (CHR ''='') @ nl
               @ nl
               @ concat (map (\<lambda>(i, p). programBlock i p) (enumerate 0 (elems programs))))"
    using saveToText_ok(2) [OF assms, of programs w]
    by (simp add: textReport_def programBlocks_def)
  moreover have "stdout (displayResults programs w)
       = stdout w @ nl @ replicate 50 (CHR ''='') @ nl
         @ ''SCAN COMPLETE!'' @ nl
         @ ''Found '' @ itoa (length (elems programs)) @ '' installed programs:'' @ nl
         @ replicate 50 (CHR ''='') @ nl @ nl
         @ concat (map (\<lambda>(i, p). programBlock i p) (enumerate 0 (elems programs)))"
    using displayResults_stdout [of programs w]
    by (simp add: programBlocks_def)
  ultimately show ?thesis
    using saveToText_ok(1) [OF assms, of programs w] by blast
qed

theorem text_export_format_witness:
  "createError okfs ''programs.txt'' = None \<and> writeError okfs ''programs.txt'' = None
   \<and> files (snd (saveToText okfs (Slice [alpha, beta]) ''programs.txt'' emptyWorld))
        ''programs.txt''
       = Some (''WinClone - Installed Programs List'' @ nl
               @ ''Generated on: 2025-01-14'' @ nl
               @ ''Total programs found: 2'' @ nl
               @ ''=================================================='' @ nl
               @ nl
               @ ''1. Alpha (v1.0)'' @ nl
               @ ''   Path: C:'' @ [CHR 0x5C] @ ''Alpha'' @ nl
               @ nl
               @ ''2. Beta'' @ nl
               @ nl)"
proof -
  have ok: "createError okfs ''programs.txt'' = None" "writeError okfs ''programs.txt'' = None"
    by (simp_all add: okfs_def)
  have two: "itoa 2 = ''2''" "itoa (Suc 0) = ''1''" "itoa (Suc (Suc 0)) = ''2''"
    by (simp_all add: itoa.simps digit_def)
  from text_export_format [OF ok, of "Slice [alpha, beta]" emptyWorld]
  show ?thesis
    by (simp add: ok two programBlock_def alpha_def beta_def enumerate_simps separator_line)
qed

subsection \<open>The structured document\<close>

lemma newline_simps:
  "newline 0 = nl" "newline (Suc 0) = nl @ ''  ''" "newline (Suc (Suc 0)) = nl @ ''    ''"
  by (simp_all add: newline_def)

lemma joinWith_indented:
  "xs \<noteq> [] \<Longrightarrow> pre @ joinWith (sep @ pre) xs = joinWith sep (map (\<lambda>x. pre @ x) xs)"
  by (induction "sep @ pre" xs rule: joinWith.induct) simp_all

lemma encodeString_keys:
  "encodeString ''Name'' = [CHR 0x22] @ ''Name'' @ [CHR 0x22]"
  "encodeString ''Version'' = [CHR 0x22] @ ''Version'' @ [CHR 0x22]"
  "encodeString ''Path'' = [CHR 0x22] @ ''Path'' @ [CHR 0x22]"
  by (simp_all add: encodeString_def htmlSafe_def)

lemma indentJSON_program:
  "indentJSON (Suc 0) (marshalProgram p) =
     ''{'' @ nl
     @ ''    \"Name\": '' @ encodeString (Name p) @ '','' @ nl
     @ ''    \"Version\": '' @ encodeString (Version p) @ '','' @ nl
     @ ''    \"Path\": '' @ encodeString (Path p) @ nl
     @ ''  }''"
  by (simp add: marshalProgram_def newline_simps encodeString_keys)

lemma jsonDocument_Slice:
  "ps \<noteq> [] \<Longrightarrow>
   jsonDocument (Slice ps) =
     ''['' @ nl
     @ joinWith ('','' @ nl)
         (map (\<lambda>p. ''  {'' @ nl
                    @ ''    \"Name\": '' @ encodeString (Name p) @ '','' @ nl
                    @ ''    \"Version\": '' @ encodeString (Version p) @ '','' @ nl
                    @ ''    \"Path\": '' @ encodeString (Path p) @ nl
                    @ ''  }'') ps)
     @ nl @ '']'' @ nl"
proof -
  assume ne: "ps \<noteq> []"
  have "jsonDocument (Slice ps) =
          ''['' @ nl @ (''  '' @ joinWith (('','' @ nl) @ ''  '')
                                  (map (indentJSON (Suc 0)) (map marshalProgram ps)))
          @ nl @ '']'' @ nl"
    using ne by (simp add: jsonDocument_def newline_simps)
  also have "''  '' @ joinWith (('','' @ nl) @ ''  '')
                        (map (indentJSON (Suc 0)) (map marshalProgram ps))
             = joinWith ('','' @ nl)
                 (map (\<lambda>x. ''  '' @ x) (map (indentJSON (Suc 0)) (map marshalProgram ps)))"
    using ne by (intro joinWith_indented) simp
  finally show ?thesis
    by (simp add: indentJSON_program comp_def)
qed

lemma jsonDocument_empty:
  "jsonDocument nil_slice = ''null'' @ nl" "jsonDocument (Slice []) = ''[]'' @ nl"
  by (simp_all add: jsonDocument_def)

lemma scanAllPrograms_nil:
  "elems (fst (fst (scanAllPrograms reg w))) = [] \<Longrightarrow> fst (fst (scanAllPrograms reg w)) = nil_slice"
  by (simp add: scanAllPrograms_result sliceOf_def split: if_splits)

text \<open>
  C6, as the code has it. On a file that can be created and written, the structured
  export returns no error and leaves in the file: for a slice that is not nil, the array
  of its records and nothing around it, every record an object with the members Name,
  Version and Path, each member on a line of its own, indented by two spaces for each
  level, and a newline at the end (the array closed at once when it has no record); for
  the nil slice, \<open>null\<close> and a newline. The scan returns the nil slice when it found no
  program.
\<close>

theorem structured_export_format:
  assumes "createError fs filename = None" and "writeError fs filename = None"
  shows
  "fst (saveToJSON fs programs filename w) = None
   \<and> files (snd (saveToJSON fs programs filename w)) filename
       = Some (case programs of
                 nil_slice \<Rightarrow> ''null'' @ nl
               | Slice ps \<Rightarrow>
                   if ps = [] then ''[]'' @ nl
                   else ''['' @ nl
                        @ joinWith ('','' @ nl)
                            (map (\<lambda>p. ''  {'' @ nl
                               @ ''    \"Name\": '' @ encodeString (Name p) @ '','' @ nl
                               @ ''    \"Version\": '' @ encodeString (Version p) @ '','' @ nl
                               @ ''    \"Path\": '' @ encodeString (Path p) @ nl
                               @ ''  }'') ps)
                        @ nl @ '']'' @ nl)
   \<and> (elems (fst (fst (scanAllPrograms reg w'))) = []
        \<longrightarrow> fst (fst (scanAllPrograms reg w')) = nil_slice)"
  using saveToJSON_ok [OF assms, of programs w] scanAllPrograms_nil [of reg w']
  by (cases programs) (simp_all add: jsonDocument_empty jsonDocument_Slice)

theorem structured_export_format_witness:
  "createError okfs ''programs.json'' = None \<and> writeError okfs ''programs.json'' = None
   \<and> files (snd (saveToJSON okfs (Slice [alpha, beta]) ''programs.json'' emptyWorld))
        ''programs.json''
       = Some (''['' @ nl
               @ ''  {'' @ nl
               @ ''    \"Name\": \"Alpha\",'' @ nl
               @ ''    \"Version\": \"1.0\",'' @ nl
               @ ''    \"Path\": \"C:'' @ [CHR 0x5C, CHR 0x5C] @ ''Alpha\"'' @ nl
               @ ''  },'' @ nl
               @ ''  {'' @ nl
               @ ''    \"Name\": \"Beta\",'' @ nl
               @ ''    \"Version\": \"\",'' @ nl
               @ ''    \"Path\": \"\"'' @ nl
               @ ''  }'' @ nl
               @ '']'' @ nl)
   \<and> elems (fst (fst (scanAllPrograms (store None None) emptyWorld))) = []"
proof -
  have ok: "createError okfs ''programs.json'' = None" "writeError okfs ''programs.json'' = None"
    by (simp_all add: okfs_def)
  have e: "elems (fst (fst (scanAllPrograms (store None None) emptyWorld))) = []"
    by (simp add: scanAllPrograms_result elems_sliceOf store_eval)
  have c: "char_of (92 :: nat) = CHR 0x5C"
    by code_simp
  from structured_export_format [OF ok, of "Slice [alpha, beta]" emptyWorld "store None None" emptyWorld]
  show ?thesis
    using e by (simp add: ok alpha_def beta_def encodeString_def htmlSafe_def escapeByte_def c)
qed

theorem empty_export_is_array_counterexample:
  "fst (scanAllPrograms (store None None) emptyWorld) = (nil_slice, None)
   \<and> files (snd (saveToJSON okfs nil_slice ''programs.json'' emptyWorld)) ''programs.json''
       = Some (''null'' @ nl)"
proof -
  have "files (snd (saveToJSON okfs nil_slice ''programs.json'' emptyWorld)) ''programs.json''
          = Some (jsonDocument nil_slice)"
    by (rule saveToJSON_ok) (simp_all add: okfs_def)
  then show ?thesis
    by (simp add: jsonDocument_empty scanAllPrograms_result sliceOf_def store_eval)
qed

subsection \<open>UTF-8: decoding and encoding\<close>

lemma of_char_less_256: "(of_char c :: nat) < 256"
  by (metis of_char_of char_of_char mod_less_divisor zero_less_numeral)

lemma horner64:
  fixes a x :: nat
  assumes "x < 64"
  shows "(a * 64 + x) div 64 = a" and "(a * 64 + x) mod 64 = x"
  using assms by simp_all

lemma div4096: "(r :: nat) div 4096 = (r div 64) div 64"
proof -
  have "r div (64 * 64) = (r div 64) div 64" by (rule div_mult2_eq)
  then show ?thesis by simp
qed

lemma div262144: "(r :: nat) div 262144 = (r div 4096) div 64"
proof -
  have "r div (4096 * 64) = (r div 4096) div 64" by (rule div_mult2_eq)
  then show ?thesis by simp
qed

lemma EncodeRune_1: "r < 128 \<Longrightarrow> EncodeRune r = [char_of r]"
  by (simp add: EncodeRune_def)

lemma EncodeRune_2:
  assumes "2 \<le> t0" "t0 < 32" "t1 < 64"
  shows "EncodeRune (t0 * 64 + t1) = [char_of (0xC0 + t0), char_of (0x80 + t1)]"
proof -
  define r where "r = t0 * 64 + t1"
  have b: "\<not> r \<le> 0x7F" "r \<le> 0x7FF" using assms by (auto simp: r_def)
  have d: "r div 64 = t0" "r mod 64 = t1"
    unfolding r_def by (rule horner64 [OF assms(3)])+
  show ?thesis
    unfolding r_def [symmetric] EncodeRune_def using b d by simp
qed

lemma EncodeRune_3:
  assumes "t0 < 16" "t1 < 64" "t2 < 64" "t0 = 0 \<longrightarrow> 32 \<le> t1" "t0 = 13 \<longrightarrow> t1 < 32"
  shows "EncodeRune ((t0 * 64 + t1) * 64 + t2)
           = [char_of (0xE0 + t0), char_of (0x80 + t1), char_of (0x80 + t2)]"
proof -
  define r where "r = (t0 * 64 + t1) * 64 + t2"
  have d1: "r div 64 = t0 * 64 + t1" and m1: "r mod 64 = t2"
    unfolding r_def by (rule horner64 [OF assms(3)])+
  have d2: "r div 4096 = t0"
    unfolding div4096 d1 by (rule horner64 [OF assms(2)])
  have m2: "(r div 64) mod 64 = t1"
    unfolding d1 by (rule horner64 [OF assms(2)])
  have lo: "0x7FF < r" using assms by (cases "t0 = 0") (auto simp: r_def)
  have hi: "r \<le> 0xFFFF" using assms by (auto simp: r_def)
  have sur: "\<not> (0xD800 \<le> r \<and> r \<le> 0xDFFF)"
  proof
    assume s: "0xD800 \<le> r \<and> r \<le> 0xDFFF"
    then have "t0 = 13" using assms(1-3) by (auto simp: r_def)
    with assms(5) have "t1 < 32" by simp
    with s \<open>t0 = 13\<close> assms(3) show False by (auto simp: r_def)
  qed
  have n1: "\<not> r \<le> 0x7F" "\<not> r \<le> 0x7FF" "\<not> 0x10FFFF < r" using lo hi by auto
  show ?thesis
    unfolding r_def [symmetric] EncodeRune_def
    using n1 sur hi d2 m2 m1 by auto
qed

lemma EncodeRune_4:
  assumes "t0 \<le> 4" "t1 < 64" "t2 < 64" "t3 < 64" "t0 = 0 \<longrightarrow> 16 \<le> t1" "t0 = 4 \<longrightarrow> t1 < 16"
  shows "EncodeRune (((t0 * 64 + t1) * 64 + t2) * 64 + t3)
           = [char_of (0xF0 + t0), char_of (0x80 + t1), char_of (0x80 + t2), char_of (0x80 + t3)]"
proof -
  define r where "r = ((t0 * 64 + t1) * 64 + t2) * 64 + t3"
  have d1: "r div 64 = (t0 * 64 + t1) * 64 + t2" and m1: "r mod 64 = t3"
    unfolding r_def by (rule horner64 [OF assms(4)])+
  have d2: "r div 4096 = t0 * 64 + t1"
    unfolding div4096 d1 by (rule horner64 [OF assms(3)])
  have d3: "r div 262144 = t0"
    unfolding div262144 d2 by (rule horner64 [OF assms(2)])
  have m2: "(r div 64) mod 64 = t2"
    unfolding d1 by (rule horner64 [OF assms(3)])
  have m3: "(r div 4096) mod 64 = t1"
    unfolding d2 by (rule horner64 [OF assms(2)])
  have lo: "0xFFFF < r" using assms by (cases "t0 = 0") (auto simp: r_def)
  have hi: "r \<le> 0x10FFFF" using assms by (cases "t0 = 4") (auto simp: r_def)
  have n1: "\<not> r \<le> 0x7F" "\<not> r \<le> 0x7FF" "\<not> 0x10FFFF < r" "\<not> r \<le> 0xFFFF"
    "\<not> (0xD800 \<le> r \<and> r \<le> 0xDFFF)"
    using lo hi by auto
  show ?thesis
    unfolding r_def [symmetric] EncodeRune_def
    using n1 d3 m3 m2 m1 by simp
qed

lemma mod_offset: "t < n \<Longrightarrow> (q * n + t) mod n = (t :: nat)"
  by simp

lemma lead_mod_gen:
  fixes s :: nat
  assumes "q * n \<le> s" "s < q * n + n"
  shows "s mod n = s - q * n"
proof -
  define t where "t = s - q * n"
  have s: "s = q * n + t" and t: "t < n" using assms by (auto simp: t_def)
  have "s mod n = (q * n + t) mod n" by (simp only: s [symmetric])
  also have "\<dots> = t" by (rule mod_offset [OF t])
  finally show ?thesis by (simp add: t_def)
qed

lemma lead_mod:
  fixes s :: nat
  shows "0xC0 \<le> s \<Longrightarrow> s < 0xE0 \<Longrightarrow> s mod 32 = s - 0xC0"
    and "0xE0 \<le> s \<Longrightarrow> s < 0xF0 \<Longrightarrow> s mod 16 = s - 0xE0"
    and "0xF0 \<le> s \<Longrightarrow> s < 0xF8 \<Longrightarrow> s mod 8 = s - 0xF0"
    and "0x80 \<le> s \<Longrightarrow> s \<le> 0xBF \<Longrightarrow> s mod 64 = s - 0x80"
  using lead_mod_gen [of 6 32 s] lead_mod_gen [of 14 16 s] lead_mod_gen [of 30 8 s]
    lead_mod_gen [of 2 64 s]
  by simp_all

lemma horner3: "(a :: nat) * 4096 + b * 64 + c = (a * 64 + b) * 64 + c"
  by (simp add: add_mult_distrib)

lemma horner4: "(a :: nat) * 262144 + b * 4096 + c * 64 + d = ((a * 64 + b) * 64 + c) * 64 + d"
  by (simp add: add_mult_distrib)

lemma two_bytes:
  fixes c0 c1 :: char
  defines "s0 \<equiv> of_char c0 :: nat" and "s1 \<equiv> of_char c1 :: nat"
  assumes "0xC2 \<le> s0" "s0 < 0xE0" "0x80 \<le> s1" "s1 \<le> 0xBF"
  shows "DecodeRuneInString (c0 # c1 # X) = ((s0 mod 32) * 64 + s1 mod 64, 2)"
    and "EncodeRune ((s0 mod 32) * 64 + s1 mod 64) = [c0, c1]"
proof -
  show "DecodeRuneInString (c0 # c1 # X) = ((s0 mod 32) * 64 + s1 mod 64, 2)"
    using assms(3-6) unfolding s0_def s1_def by (simp add: Let_def)
  have m: "s0 mod 32 = s0 - 0xC0" "s1 mod 64 = s1 - 0x80"
    using assms(3-6) by (simp_all add: lead_mod)
  have "EncodeRune ((s0 - 0xC0) * 64 + (s1 - 0x80))
          = [char_of (0xC0 + (s0 - 0xC0)), char_of (0x80 + (s1 - 0x80))]"
    using assms(3-6) by (intro EncodeRune_2) auto
  also have "0xC0 + (s0 - 0xC0) = s0" using assms(3) by simp
  also have "0x80 + (s1 - 0x80) = s1" using assms(5) by simp
  finally show "EncodeRune ((s0 mod 32) * 64 + s1 mod 64) = [c0, c1]"
    unfolding m by (simp add: s0_def s1_def)
qed

lemma three_bytes:
  fixes c0 c1 c2 :: char
  defines "s0 \<equiv> of_char c0 :: nat" and "s1 \<equiv> of_char c1 :: nat" and "s2 \<equiv> of_char c2 :: nat"
  assumes "0xE0 \<le> s0" "s0 < 0xF0"
    and "(if s0 = 0xE0 then 0xA0 else 0x80) \<le> s1" "s1 \<le> (if s0 = 0xED then 0x9F else 0xBF)"
    and "0x80 \<le> s2" "s2 \<le> 0xBF"
  shows "DecodeRuneInString (c0 # c1 # c2 # X)
           = ((s0 mod 16) * 4096 + (s1 mod 64) * 64 + s2 mod 64, 3)"
    and "EncodeRune ((s0 mod 16) * 4096 + (s1 mod 64) * 64 + s2 mod 64) = [c0, c1, c2]"
proof -
  show "DecodeRuneInString (c0 # c1 # c2 # X)
           = ((s0 mod 16) * 4096 + (s1 mod 64) * 64 + s2 mod 64, 3)"
    using assms(4-9) unfolding s0_def s1_def s2_def by (simp add: Let_def split: if_splits)
  have s1: "0x80 \<le> s1" "s1 \<le> 0xBF" using assms(6,7) by (auto split: if_splits)
  have m: "s0 mod 16 = s0 - 0xE0" "s1 mod 64 = s1 - 0x80" "s2 mod 64 = s2 - 0x80"
    using assms(4,5,8,9) s1 by (simp_all add: lead_mod)
  have h: "(s0 - 0xE0) * 4096 + (s1 - 0x80) * 64 + (s2 - 0x80)
             = ((s0 - 0xE0) * 64 + (s1 - 0x80)) * 64 + (s2 - 0x80)"
    by (rule horner3)
  have "EncodeRune (((s0 - 0xE0) * 64 + (s1 - 0x80)) * 64 + (s2 - 0x80))
          = [char_of (0xE0 + (s0 - 0xE0)), char_of (0x80 + (s1 - 0x80)), char_of (0x80 + (s2 - 0x80))]"
    using assms(4-9) s1 by (intro EncodeRune_3) (auto split: if_splits)
  also have "0xE0 + (s0 - 0xE0) = s0" using assms(4) by simp
  also have "0x80 + (s1 - 0x80) = s1" using s1 by simp
  also have "0x80 + (s2 - 0x80) = s2" using assms(8) by simp
  finally show "EncodeRune ((s0 mod 16) * 4096 + (s1 mod 64) * 64 + s2 mod 64) = [c0, c1, c2]"
    unfolding m h by (simp add: s0_def s1_def s2_def)
qed

lemma four_bytes:
  fixes c0 c1 c2 c3 :: char
  defines "s0 \<equiv> of_char c0 :: nat" and "s1 \<equiv> of_char c1 :: nat"
    and "s2 \<equiv> of_char c2 :: nat" and "s3 \<equiv> of_char c3 :: nat"
  assumes "0xF0 \<le> s0" "s0 \<le> 0xF4"
    and "(if s0 = 0xF0 then 0x90 else 0x80) \<le> s1" "s1 \<le> (if s0 = 0xF4 then 0x8F else 0xBF)"
    and "0x80 \<le> s2" "s2 \<le> 0xBF" "0x80 \<le> s3" "s3 \<le> 0xBF"
  shows "DecodeRuneInString (c0 # c1 # c2 # c3 # X)
           = ((s0 mod 8) * 262144 + (s1 mod 64) * 4096 + (s2 mod 64) * 64 + s3 mod 64, 4)"
    and "EncodeRune ((s0 mod 8) * 262144 + (s1 mod 64) * 4096 + (s2 mod 64) * 64 + s3 mod 64)
           = [c0, c1, c2, c3]"
proof -
  show "DecodeRuneInString (c0 # c1 # c2 # c3 # X)
           = ((s0 mod 8) * 262144 + (s1 mod 64) * 4096 + (s2 mod 64) * 64 + s3 mod 64, 4)"
    using assms(5-12) unfolding s0_def s1_def s2_def s3_def
    by (simp add: Let_def split: if_splits)
  have s1: "0x80 \<le> s1" "s1 \<le> 0xBF" using assms(7,8) by (auto split: if_splits)
  have m: "s0 mod 8 = s0 - 0xF0" "s1 mod 64 = s1 - 0x80" "s2 mod 64 = s2 - 0x80"
    "s3 mod 64 = s3 - 0x80"
    using assms(5,6,9-12) s1 by (simp_all add: lead_mod)
  have h: "(s0 - 0xF0) * 262144 + (s1 - 0x80) * 4096 + (s2 - 0x80) * 64 + (s3 - 0x80)
             = (((s0 - 0xF0) * 64 + (s1 - 0x80)) * 64 + (s2 - 0x80)) * 64 + (s3 - 0x80)"
    by (rule horner4)
  have "EncodeRune ((((s0 - 0xF0) * 64 + (s1 - 0x80)) * 64 + (s2 - 0x80)) * 64 + (s3 - 0x80))
          = [char_of (0xF0 + (s0 - 0xF0)), char_of (0x80 + (s1 - 0x80)),
             char_of (0x80 + (s2 - 0x80)), char_of (0x80 + (s3 - 0x80))]"
    using assms(5-12) s1 by (intro EncodeRune_4) (auto split: if_splits)
  also have "0xF0 + (s0 - 0xF0) = s0" using assms(5) by simp
  also have "0x80 + (s1 - 0x80) = s1" using s1 by simp
  also have "0x80 + (s2 - 0x80) = s2" using assms(9) by simp
  also have "0x80 + (s3 - 0x80) = s3" using assms(11) by simp
  finally show "EncodeRune ((s0 mod 8) * 262144 + (s1 mod 64) * 4096 + (s2 mod 64) * 64
                   + s3 mod 64) = [c0, c1, c2, c3]"
    unfolding m h by (simp add: s0_def s1_def s2_def s3_def)
qed

lemma decode_shape:
  fixes c0 :: char
  assumes "128 \<le> (of_char c0 :: nat)" and "DecodeRuneInString (c0 # cs) = (r, w)"
    and "\<not> (r = RuneError \<and> w = 1)"
  shows "(\<exists>c1 X. cs = c1 # X \<and> w = 2
            \<and> 0xC2 \<le> (of_char c0 :: nat) \<and> (of_char c0 :: nat) < 0xE0
            \<and> 0x80 \<le> (of_char c1 :: nat) \<and> (of_char c1 :: nat) \<le> 0xBF)
       \<or> (\<exists>c1 c2 X. cs = c1 # c2 # X \<and> w = 3
            \<and> 0xE0 \<le> (of_char c0 :: nat) \<and> (of_char c0 :: nat) < 0xF0
            \<and> (if (of_char c0 :: nat) = 0xE0 then 0xA0 else 0x80) \<le> (of_char c1 :: nat)
            \<and> (of_char c1 :: nat) \<le> (if (of_char c0 :: nat) = 0xED then 0x9F else 0xBF)
            \<and> 0x80 \<le> (of_char c2 :: nat) \<and> (of_char c2 :: nat) \<le> 0xBF)
       \<or> (\<exists>c1 c2 c3 X. cs = c1 # c2 # c3 # X \<and> w = 4
            \<and> 0xF0 \<le> (of_char c0 :: nat) \<and> (of_char c0 :: nat) \<le> 0xF4
            \<and> (if (of_char c0 :: nat) = 0xF0 then 0x90 else 0x80) \<le> (of_char c1 :: nat)
            \<and> (of_char c1 :: nat) \<le> (if (of_char c0 :: nat) = 0xF4 then 0x8F else 0xBF)
            \<and> 0x80 \<le> (of_char c2 :: nat) \<and> (of_char c2 :: nat) \<le> 0xBF
            \<and> 0x80 \<le> (of_char c3 :: nat) \<and> (of_char c3 :: nat) \<le> 0xBF)"
proof (cases cs)
  case Nil
  with assms show ?thesis by (simp add: Let_def split: if_splits)
next
  case c1: (Cons c1 X1)
  show ?thesis
  proof (cases X1)
    case Nil
    with c1 assms show ?thesis by (simp add: Let_def split: if_splits)
  next
    case c2: (Cons c2 X2)
    show ?thesis
    proof (cases X2)
      case Nil
      with c1 c2 assms show ?thesis by (simp add: Let_def split: if_splits)
    next
      case c3: (Cons c3 X3)
      with c1 c2 assms show ?thesis by (simp add: Let_def split: if_splits)
    qed
  qed
qed

lemma decode_valid:
  fixes c0 :: char
  assumes "128 \<le> (of_char c0 :: nat)" and "DecodeRuneInString (c0 # cs) = (r, w)"
    and "\<not> (r = RuneError \<and> w = 1)"
  shows "EncodeRune r = take w (c0 # cs)
       \<and> 2 \<le> w \<and> w \<le> Suc (length cs)
       \<and> DecodeRuneInString (take w (c0 # cs) @ Y) = (r, w)"
proof -
  consider
    (two) c1 X where "cs = c1 # X" "w = 2"
      "0xC2 \<le> (of_char c0 :: nat)" "(of_char c0 :: nat) < 0xE0"
      "0x80 \<le> (of_char c1 :: nat)" "(of_char c1 :: nat) \<le> 0xBF"
  | (three) c1 c2 X where "cs = c1 # c2 # X" "w = 3"
      "0xE0 \<le> (of_char c0 :: nat)" "(of_char c0 :: nat) < 0xF0"
      "(if (of_char c0 :: nat) = 0xE0 then 0xA0 else 0x80) \<le> (of_char c1 :: nat)"
      "(of_char c1 :: nat) \<le> (if (of_char c0 :: nat) = 0xED then 0x9F else 0xBF)"
      "0x80 \<le> (of_char c2 :: nat)" "(of_char c2 :: nat) \<le> 0xBF"
  | (four) c1 c2 c3 X where "cs = c1 # c2 # c3 # X" "w = 4"
      "0xF0 \<le> (of_char c0 :: nat)" "(of_char c0 :: nat) \<le> 0xF4"
      "(if (of_char c0 :: nat) = 0xF0 then 0x90 else 0x80) \<le> (of_char c1 :: nat)"
      "(of_char c1 :: nat) \<le> (if (of_char c0 :: nat) = 0xF4 then 0x8F else 0xBF)"
      "0x80 \<le> (of_char c2 :: nat)" "(of_char c2 :: nat) \<le> 0xBF"
      "0x80 \<le> (of_char c3 :: nat)" "(of_char c3 :: nat) \<le> 0xBF"
    using decode_shape [OF assms] by blast
  then show ?thesis
  proof cases
    case two
    note d = two_bytes [OF two(3-6)]
    from assms(2) have r: "r = (of_char c0 mod 32) * 64 + of_char c1 mod 64"
      unfolding two(1) d(1) by simp
    show ?thesis
      unfolding r two(1,2) using d(1) [of Y] d(2) by simp
  next
    case three
    note d = three_bytes [OF three(3-8)]
    from assms(2) have r: "r = (of_char c0 mod 16) * 4096 + (of_char c1 mod 64) * 64
                                 + of_char c2 mod 64"
      unfolding three(1) d(1) by simp
    show ?thesis
      unfolding r three(1,2) using d(1) [of Y] d(2) by simp
  next
    case four
    note d = four_bytes [OF four(3-10)]
    from assms(2) have r: "r = (of_char c0 mod 8) * 262144 + (of_char c1 mod 64) * 4096
                                 + (of_char c2 mod 64) * 64 + of_char c3 mod 64"
      unfolding four(1) d(1) by simp
    show ?thesis
      unfolding r four(1,2) using d(1) [of Y] d(2) by simp
  qed
qed

lemma decode_width: "DecodeRuneInString (c # cs) = (r, w) \<Longrightarrow> 1 \<le> w"
  by (auto simp: Let_def split: if_splits)

lemma decode_take4: "DecodeRuneInString (take 4 (c # cs)) = DecodeRuneInString (c # cs)"
proof (cases cs)
  case Nil
  then show ?thesis by simp
next
  case c1: (Cons c1 X1)
  show ?thesis
  proof (cases X1)
    case Nil
    with c1 show ?thesis by simp
  next
    case c2: (Cons c2 X2)
    show ?thesis
    proof (cases X2)
      case Nil
      with c1 c2 show ?thesis by simp
    next
      case c3: (Cons c3 X3)
      with c1 c2 show ?thesis by (simp add: Let_def)
    qed
  qed
qed

lemma replacement_bytes:
  "char_of (239 :: nat) = CHR 0xEF" "char_of (191 :: nat) = CHR 0xBF"
  "char_of (189 :: nat) = CHR 0xBD"
  by code_simp+

lemma EncodeRune_RuneError: "EncodeRune RuneError = [CHR 0xEF, CHR 0xBF, CHR 0xBD]"
  by (simp add: EncodeRune_def RuneError_def replacement_bytes)

subsection \<open>String literals: written and read back\<close>

lemma char_from_code: "(of_char c :: nat) = n \<Longrightarrow> c = char_of n"
  by auto

lemma control_letters:
  "char_of (8 :: nat) = CHR 0x08" "char_of (12 :: nat) = CHR 0x0C"
  "char_of (10 :: nat) = CHR 0x0A" "char_of (13 :: nat) = CHR 0x0D"
  "char_of (9 :: nat) = CHR 0x09" "char_of (34 :: nat) = CHR 0x22"
  "char_of (92 :: nat) = CHR 0x5C"
  by code_simp+

lemma unquote_plain:
  "c \<noteq> CHR 0x22 \<Longrightarrow> c \<noteq> CHR 0x5C \<Longrightarrow> 0x20 \<le> (of_char c :: nat) \<Longrightarrow> (of_char c :: nat) < 0x80
   \<Longrightarrow> unquote (c # E) = prepend [c] (unquote E)"
  by (simp add: Let_def)

lemma unquote_letter:
  "unescape e = Some x \<Longrightarrow> unquote (CHR 0x5C # e # E) = prepend [x] (unquote E)"
  by (auto simp: Let_def unescape_def split: if_splits)

lemma unquote_u:
  "getu4 (CHR 0x5C # CHR ''u'' # h1 # h2 # h3 # h4 # E) = Some rr
   \<Longrightarrow> \<not> (0xD800 \<le> rr \<and> rr < 0xE000)
   \<Longrightarrow> unquote (CHR 0x5C # CHR ''u'' # h1 # h2 # h3 # h4 # E) = prepend (EncodeRune rr) (unquote E)"
  by (auto simp: Let_def simp del: getu4.simps)

lemma unquote_rune:
  "128 \<le> (of_char c :: nat) \<Longrightarrow> DecodeRuneInString (c # cs) = (rr, w)
   \<Longrightarrow> unquote (c # cs) = prepend (EncodeRune rr) (unquote (drop (w - 1) cs))"
  by (auto simp: Let_def simp del: DecodeRuneInString.simps)

lemma hexValue_hex_all: "list_all (\<lambda>d. hexValue (hex d) = Some d) [0..<16]"
  by code_simp

lemma hexValue_hex: "d < 16 \<Longrightarrow> hexValue (hex d) = Some d"
  using hexValue_hex_all by (simp add: list_all_iff)

lemma hexValue_zero: "hexValue (CHR ''0'') = Some 0"
  by (simp add: hexValue_def)

lemma getu4_byte:
  assumes "b < 128"
  shows "getu4 (CHR 0x5C # CHR ''u'' # CHR ''0'' # CHR ''0'' # hex (b div 16) # hex (b mod 16) # E)
           = Some b"
proof -
  have "b div 16 < 16" "b mod 16 < 16" using assms by auto
  then show ?thesis
    by (simp add: hexValue_hex hexValue_zero)
qed

lemma getu4_replacement:
  "getu4 (CHR 0x5C # CHR ''u'' # CHR ''f'' # CHR ''f'' # CHR ''f'' # CHR ''d'' # E) = Some RuneError"
  by (simp add: hexValue_def RuneError_def)

lemma getu4_separator:
  "r = 0x2028 \<or> r = 0x2029 \<Longrightarrow>
   getu4 (CHR 0x5C # CHR ''u'' # CHR ''2'' # CHR ''0'' # CHR ''2'' # hex (r mod 16) # E) = Some r"
  by (auto simp: hexValue_def hex_def)

declare unquote.simps [simp del]

lemmas string_simps = escapeBody.simps coerceUTF8.simps

declare escapeBody.simps [simp del] coerceUTF8.simps [simp del]

lemma unquote_Nil: "unquote (CHR 0x22 # rest) = Some ([], rest)"
  by (simp add: unquote.simps)

lemma unquote_escapeByte:
  assumes b: "(of_char c :: nat) = b" and "b < 0x80" and "\<not> htmlSafe b"
  shows "unquote (escapeByte b @ E) = prepend [c] (unquote E)"
proof -
  have c: "c = char_of b" using b by (rule char_from_code)
  consider (quote) "b = 0x5C \<or> b = 0x22"
    | (bs) "b = 0x08" | (ff) "b = 0x0C" | (lf) "b = 0x0A" | (cr) "b = 0x0D" | (tab) "b = 0x09"
    | (other) "b \<noteq> 0x5C" "b \<noteq> 0x22" "b \<noteq> 0x08" "b \<noteq> 0x0C" "b \<noteq> 0x0A" "b \<noteq> 0x0D" "b \<noteq> 0x09"
    by blast
  then show ?thesis
  proof cases
    case quote
    then have "unescape c = Some c"
      by (auto simp: c control_letters unescape_def)
    then show ?thesis
      using quote by (auto simp: escapeByte_def c [symmetric] unquote_letter)
  next
    case bs
    then show ?thesis
      by (simp add: escapeByte_def c control_letters unquote_letter unescape_def)
  next
    case ff
    then show ?thesis
      by (simp add: escapeByte_def c control_letters unquote_letter unescape_def)
  next
    case lf
    then show ?thesis
      by (simp add: escapeByte_def c control_letters unquote_letter unescape_def)
  next
    case cr
    then show ?thesis
      by (simp add: escapeByte_def c control_letters unquote_letter unescape_def)
  next
    case tab
    then show ?thesis
      by (simp add: escapeByte_def c control_letters unquote_letter unescape_def)
  next
    case other
    have e: "escapeByte b = [CHR 0x5C, CHR ''u'', CHR ''0'', CHR ''0'', hex (b div 16), hex (b mod 16)]"
      using other by (simp add: escapeByte_def)
    have "unquote (CHR 0x5C # CHR ''u'' # CHR ''0'' # CHR ''0'' # hex (b div 16) # hex (b mod 16) # E)
            = prepend (EncodeRune b) (unquote E)"
      using assms(2) by (intro unquote_u getu4_byte) auto
    then show ?thesis
      using assms(2) by (simp add: e EncodeRune_1 c)
  qed
qed

lemma prepend_Some: "prepend x (Some (s, rest)) = Some (x @ s, rest)"
  by (simp add: prepend_def)

lemma unquote_escapeBody:
  "unquote (escapeBody s @ CHR 0x22 # rest) = Some (coerceUTF8 s, rest)"
proof (induction s rule: length_induct)
  case (1 s)
  show ?case
  proof (cases s)
    case Nil
    then show ?thesis by (simp add: unquote_Nil string_simps)
  next
    case (Cons c cs)
    define b where "b = (of_char c :: nat)"
    have IH: "unquote (escapeBody ys @ CHR 0x22 # rest) = Some (coerceUTF8 ys, rest)"
      if "length ys \<le> length cs" for ys
      using 1 that Cons by simp
    show ?thesis
    proof (cases "b < 0x80")
      case True
      have co: "coerceUTF8 (c # cs) = c # coerceUTF8 cs"
        using True by (simp add: string_simps b_def RuneError_def)
      show ?thesis
      proof (cases "htmlSafe b")
        case safe: True
        have e: "escapeBody (c # cs) = c # escapeBody cs"
          using True safe by (simp add: string_simps b_def)
        have "c \<noteq> CHR 0x22" "c \<noteq> CHR 0x5C" "0x20 \<le> b"
          using safe by (auto simp: htmlSafe_def b_def)
        then have "unquote (c # escapeBody cs @ CHR 0x22 # rest)
                     = prepend [c] (unquote (escapeBody cs @ CHR 0x22 # rest))"
          using True by (intro unquote_plain) (auto simp: b_def)
        then show ?thesis
          by (simp add: Cons e co IH prepend_Some)
      next
        case unsafe: False
        have e: "escapeBody (c # cs) = escapeByte b @ escapeBody cs"
          using True unsafe by (simp add: string_simps b_def)
        have "unquote (escapeByte b @ escapeBody cs @ CHR 0x22 # rest)
                = prepend [c] (unquote (escapeBody cs @ CHR 0x22 # rest))"
          using True unsafe by (intro unquote_escapeByte) (auto simp: b_def)
        then show ?thesis
          by (simp add: Cons e co IH prepend_Some)
      qed
    next
      case False
      then have hi: "128 \<le> (of_char c :: nat)" by (simp add: b_def)
      obtain r w where d: "DecodeRuneInString (c # cs) = (r, w)" by force
      have d4: "DecodeRuneInString (take 4 (c # cs)) = (r, w)"
        using d by (simp only: decode_take4)
      show ?thesis
      proof (cases "r = RuneError \<and> w = 1")
        case invalid: True
        have e: "escapeBody (c # cs)
                   = [CHR 0x5C, CHR ''u'', CHR ''f'', CHR ''f'', CHR ''f'', CHR ''d''] @ escapeBody cs"
          using hi d4 invalid by (simp add: string_simps del: DecodeRuneInString.simps)
        have co: "coerceUTF8 (c # cs) = [CHR 0xEF, CHR 0xBF, CHR 0xBD] @ coerceUTF8 cs"
          using d invalid by (simp add: string_simps del: DecodeRuneInString.simps)
        have "unquote (CHR 0x5C # CHR ''u'' # CHR ''f'' # CHR ''f'' # CHR ''f'' # CHR ''d''
                         # escapeBody cs @ CHR 0x22 # rest)
                = prepend (EncodeRune RuneError) (unquote (escapeBody cs @ CHR 0x22 # rest))"
          by (intro unquote_u getu4_replacement) (simp add: RuneError_def)
        then show ?thesis
          by (simp add: Cons e co IH prepend_Some EncodeRune_RuneError)
      next
        case valid: False
        from decode_valid [OF hi d valid]
        have enc: "EncodeRune r = take w (c # cs)" and w: "2 \<le> w" "w \<le> Suc (length cs)"
          and dec: "DecodeRuneInString (take w (c # cs) @ Y) = (r, w)" for Y
          by blast+
        obtain k where k: "w = Suc k" using w(1) by (cases w) auto
        have tk: "take w (c # cs) = c # take k cs" by (simp add: k)
        have lk: "length (take k cs) = k" using w(2) by (simp add: k)
        have co: "coerceUTF8 (c # cs) = take w (c # cs) @ coerceUTF8 (drop k cs)"
          using d valid by (auto simp add: string_simps k simp del: DecodeRuneInString.simps)
        have ih: "unquote (escapeBody (drop k cs) @ CHR 0x22 # rest)
                    = Some (coerceUTF8 (drop k cs), rest)"
          by (rule IH) simp
        show ?thesis
        proof (cases "r = 0x2028 \<or> r = 0x2029")
          case sep: True
          have e: "escapeBody (c # cs)
                     = [CHR 0x5C, CHR ''u'', CHR ''2'', CHR ''0'', CHR ''2'', hex (r mod 16)]
                       @ escapeBody (drop k cs)"
            using hi d4 valid sep by (auto simp add: string_simps k simp del: DecodeRuneInString.simps)
          have "unquote (CHR 0x5C # CHR ''u'' # CHR ''2'' # CHR ''0'' # CHR ''2'' # hex (r mod 16)
                           # escapeBody (drop k cs) @ CHR 0x22 # rest)
                  = prepend (EncodeRune r) (unquote (escapeBody (drop k cs) @ CHR 0x22 # rest))"
            using sep by (intro unquote_u getu4_separator) auto
          then show ?thesis
            by (simp add: Cons e co ih prepend_Some enc)
        next
          case plain: False
          have e: "escapeBody (c # cs) = take w (c # cs) @ escapeBody (drop k cs)"
            using hi d4 valid plain by (auto simp add: string_simps k simp del: DecodeRuneInString.simps)
          let ?Y = "escapeBody (drop k cs) @ CHR 0x22 # rest"
          have "unquote (c # take k cs @ ?Y)
                  = prepend (EncodeRune r) (unquote (drop (w - 1) (take k cs @ ?Y)))"
            using dec [of ?Y] by (intro unquote_rune hi) (simp add: tk)
          also have "drop (w - 1) (take k cs @ ?Y) = ?Y"
            using lk by (simp add: k)
          finally show ?thesis
            by (simp add: Cons e co ih prepend_Some enc tk)
        qed
      qed
    qed
  qed
qed

lemma coerceUTF8_valid: "validUTF8 s \<Longrightarrow> coerceUTF8 s = s"
proof (induction s rule: length_induct)
  case (1 s)
  show ?case
  proof (cases s)
    case Nil
    then show ?thesis by (simp add: string_simps)
  next
    case (Cons c cs)
    obtain r w where d: "DecodeRuneInString (c # cs) = (r, w)" by force
    from "1.prems" Cons d have v: "\<not> (r = RuneError \<and> w = 1)" "validUTF8 (drop (w - 1) cs)"
      by (auto simp del: DecodeRuneInString.simps split: if_splits)
    have w: "1 \<le> w" using d by (rule decode_width)
    have "coerceUTF8 (drop (w - 1) cs) = drop (w - 1) cs"
      using 1 v(2) Cons by simp
    then have "coerceUTF8 (c # cs) = take w (c # cs) @ drop (w - 1) cs"
      using d v(1) by (auto simp add: string_simps simp del: DecodeRuneInString.simps)
    also have "\<dots> = c # cs"
      using w by (cases w) simp_all
    finally show ?thesis by (simp add: Cons)
  qed
qed

subsection \<open>Documents: written and read back\<close>

lemma unquote_keys:
  "unquote (''Name'' @ CHR 0x22 # rest) = Some (''Name'', rest)"
  "unquote (''Version'' @ CHR 0x22 # rest) = Some (''Version'', rest)"
  "unquote (''Path'' @ CHR 0x22 # rest) = Some (''Path'', rest)"
  using unquote_escapeBody [of "''Name''" rest] unquote_escapeBody [of "''Version''" rest]
    unquote_escapeBody [of "''Path''" rest]
  by (simp_all add: string_simps htmlSafe_def RuneError_def)

declare parseValue.simps [simp del] parseElements.simps [simp del] parseMembers.simps [simp del]

lemma parseValue_space:
  "parseValue (Suc n) (CHR 0x20 # s) = parseValue (Suc n) s"
  "parseValue (Suc n) (CHR 0x0A # s) = parseValue (Suc n) s"
  by (simp_all add: parseValue.simps)

lemma parseValue_string:
  "parseValue (Suc n) (CHR 0x22 # escapeBody s @ CHR 0x22 # rest)
     = Some (JString (coerceUTF8 s), rest)"
  by (simp add: parseValue.simps unquote_escapeBody)

lemma parseMembers_program:
  "parseMembers (Suc (Suc (Suc (Suc n))))
     (nl @ ''    \"Name\": '' @ encodeString a @ '','' @ nl
      @ ''    \"Version\": '' @ encodeString b @ '','' @ nl
      @ ''    \"Path\": '' @ encodeString c @ nl
      @ ''  }'' @ rest)
   = Some ([(''Name'', JString (coerceUTF8 a)), (''Version'', JString (coerceUTF8 b)),
            (''Path'', JString (coerceUTF8 c))], rest)"
  using unquote_keys
  by (simp add: parseMembers.simps nl_def encodeString_def parseValue_space parseValue_string)

lemma parseValue_program:
  "parseValue (Suc (Suc (Suc (Suc (Suc n)))))
     (newline (Suc 0) @ indentJSON (Suc 0) (marshalProgram p) @ rest)
   = Some (marshalProgram (coerceProgram p), rest)"
proof -
  define members where "members = nl @ ''    \"Name\": '' @ encodeString (Name p) @ '','' @ nl
      @ ''    \"Version\": '' @ encodeString (Version p) @ '','' @ nl
      @ ''    \"Path\": '' @ encodeString (Path p) @ nl
      @ ''  }'' @ rest"
  have t: "newline (Suc 0) @ indentJSON (Suc 0) (marshalProgram p) @ rest
             = CHR 0x0A # CHR 0x20 # CHR 0x20 # CHR ''{'' # members"
    by (simp add: members_def indentJSON_program newline_simps nl_def)
  have s: "\<exists>ds. skipSpace members = CHR 0x22 # ds"
    by (simp add: members_def nl_def)
  have pm: "parseMembers (Suc (Suc (Suc (Suc n)))) members
          = Some ([(''Name'', JString (coerceUTF8 (Name p))),
                   (''Version'', JString (coerceUTF8 (Version p))),
                   (''Path'', JString (coerceUTF8 (Path p)))], rest)"
    unfolding members_def by (rule parseMembers_program)
  have "parseValue (Suc (Suc (Suc (Suc (Suc n))))) (CHR ''{'' # members)
          = Some (JObject [(''Name'', JString (coerceUTF8 (Name p))),
                           (''Version'', JString (coerceUTF8 (Version p))),
                           (''Path'', JString (coerceUTF8 (Path p)))], rest)"
    using s pm by (auto simp: parseValue.simps)
  then show ?thesis
    unfolding t by (simp add: parseValue_space marshalProgram_def coerceProgram_def)
qed

lemma fuel5: "5 \<le> m \<Longrightarrow> \<exists>k. m = Suc (Suc (Suc (Suc (Suc k))))"
  by (intro exI [of _ "m - 5"]) linarith

lemma skipSpace_simps:
  "skipSpace (nl @ s) = skipSpace s" "skipSpace (newline (Suc 0) @ s) = skipSpace s"
  "skipSpace (CHR '','' # s) = CHR '','' # s" "skipSpace (CHR '']'' # s) = CHR '']'' # s"
  "skipSpace (CHR ''{'' # s) = CHR ''{'' # s"
  by (simp_all add: nl_def newline_simps)

lemma parseElements_programs:
  "ps \<noteq> [] \<Longrightarrow> length ps + 5 \<le> n \<Longrightarrow>
   parseElements n
     (newline (Suc 0)
      @ joinWith ('','' @ newline (Suc 0)) (map (\<lambda>p. indentJSON (Suc 0) (marshalProgram p)) ps)
      @ nl @ '']'' @ rest)
   = Some (map (\<lambda>p. marshalProgram (coerceProgram p)) ps, rest)"
proof (induction ps arbitrary: n rule: list_nonempty_induct)
  case (single p)
  then obtain m where n': "n = Suc m" and "5 \<le> m"
    by (cases n) auto
  then obtain k where n: "n = Suc (Suc (Suc (Suc (Suc (Suc k)))))"
    using fuel5 [of m] by auto
  have v: "parseValue (Suc (Suc (Suc (Suc (Suc k)))))
             (newline (Suc 0) @ indentJSON (Suc 0) (marshalProgram p) @ nl @ '']'' @ rest)
           = Some (marshalProgram (coerceProgram p), nl @ '']'' @ rest)"
    by (rule parseValue_program)
  show ?case
    unfolding n parseElements.simps(2)
    using v by (simp add: skipSpace_simps)
next
  case (cons p ps)
  then obtain m where n: "n = Suc m" and m: "length ps + 5 \<le> m"
    by (cases n) auto
  from m obtain k where k: "m = Suc (Suc (Suc (Suc (Suc k))))"
    using fuel5 [of m] by auto
  obtain q qs where ps: "ps = q # qs" using cons.hyps by (cases ps) auto
  let ?tail = "'','' @ newline (Suc 0)
      @ joinWith ('','' @ newline (Suc 0)) (map (\<lambda>p. indentJSON (Suc 0) (marshalProgram p)) ps)
      @ nl @ '']'' @ rest"
  have t: "newline (Suc 0)
      @ joinWith ('','' @ newline (Suc 0)) (map (\<lambda>p. indentJSON (Suc 0) (marshalProgram p)) (p # ps))
      @ nl @ '']'' @ rest
      = newline (Suc 0) @ indentJSON (Suc 0) (marshalProgram p) @ ?tail"
    by (simp add: ps)
  have v: "parseValue m (newline (Suc 0) @ indentJSON (Suc 0) (marshalProgram p) @ ?tail)
           = Some (marshalProgram (coerceProgram p), ?tail)"
    unfolding k by (rule parseValue_program)
  have ih: "parseElements m
     (newline (Suc 0)
      @ joinWith ('','' @ newline (Suc 0)) (map (\<lambda>p. indentJSON (Suc 0) (marshalProgram p)) ps)
      @ nl @ '']'' @ rest)
   = Some (map (\<lambda>p. marshalProgram (coerceProgram p)) ps, rest)"
    by (rule cons.IH [OF m])
  show ?case
    unfolding t n parseElements.simps(2)
    using v ih by (simp add: skipSpace_simps)
qed

lemma joinWith_length:
  "(\<And>x. x \<in> set xs \<Longrightarrow> x \<noteq> []) \<Longrightarrow> length xs \<le> length (joinWith sep xs)"
proof (induction sep xs rule: joinWith.induct)
  case (1 sep)
  show ?case by simp
next
  case (2 sep x)
  then have "x \<noteq> []" by simp
  then show ?case by (cases x) simp_all
next
  case (3 sep x y ys)
  then have "x \<noteq> []" by simp
  then have "1 \<le> length x" by (cases x) simp_all
  moreover have "length (y # ys) \<le> length (joinWith sep (y # ys))"
    using 3 by simp
  ultimately show ?case by simp
qed

lemma object_text: "\<exists>t. indentJSON (Suc 0) (marshalProgram p) = CHR ''{'' # t"
  by (simp add: indentJSON_program)

lemma joinWith_object:
  "ps \<noteq> [] \<Longrightarrow>
   \<exists>t. joinWith sep (map (\<lambda>p. indentJSON (Suc 0) (marshalProgram p)) ps) = CHR ''{'' # t"
proof -
  assume "ps \<noteq> []"
  then obtain p qs where ps: "ps = p # qs" by (cases ps) auto
  obtain t where t: "indentJSON (Suc 0) (marshalProgram p) = CHR ''{'' # t"
    using object_text by blast
  show ?thesis
    by (cases qs) (simp_all add: ps t)
qed

lemma parseJSON_programs:
  assumes "ps \<noteq> []"
  shows "parseJSON (jsonDocument (Slice ps))
           = Some (JArray (map (\<lambda>p. marshalProgram (coerceProgram p)) ps))"
proof -
  define objs where "objs = map (\<lambda>p. indentJSON (Suc 0) (marshalProgram p)) ps"
  define sep where "sep = '','' @ newline (Suc 0)"
  define body where "body = newline (Suc 0) @ joinWith sep objs @ nl @ '']'' @ nl"
  have doc: "jsonDocument (Slice ps) = CHR ''['' # body"
    using assms by (simp add: jsonDocument_def body_def objs_def sep_def newline_simps comp_def)
  have "length ps \<le> length (joinWith sep objs)"
  proof -
    have "length objs \<le> length (joinWith sep objs)"
      by (intro joinWith_length) (auto simp: objs_def indentJSON_program)
    then show ?thesis by (simp add: objs_def)
  qed
  then have fuel: "length ps + 5 \<le> length (jsonDocument (Slice ps))"
    by (simp add: doc body_def newline_simps nl_def)
  obtain t where t: "joinWith sep objs = CHR ''{'' # t"
    using joinWith_object [OF assms] unfolding objs_def by blast
  have sk: "skipSpace body = CHR ''{'' # t @ nl @ '']'' @ nl"
    by (simp add: body_def t skipSpace_simps)
  have pe: "parseElements (length (jsonDocument (Slice ps))) body
              = Some (map (\<lambda>p. marshalProgram (coerceProgram p)) ps, nl)"
    unfolding body_def objs_def sep_def by (rule parseElements_programs [OF assms fuel])
  have "parseValue (Suc (length (jsonDocument (Slice ps)))) (CHR ''['' # body)
          = Some (JArray (map (\<lambda>p. marshalProgram (coerceProgram p)) ps), nl)"
    using sk pe by (simp add: parseValue.simps)
  then show ?thesis
    unfolding parseJSON_def doc [symmetric] by (simp add: nl_def)
qed

lemma parseJSON_empty:
  "parseJSON (jsonDocument nil_slice) = Some JNull"
  "parseJSON (jsonDocument (Slice [])) = Some (JArray [])"
  by (simp_all add: parseJSON_def jsonDocument_def nl_def parseValue.simps)

lemma lower_keys:
  "asciiLower (CHR ''N'') = CHR ''n''" "asciiLower (CHR ''a'') = CHR ''a''" "asciiLower
  (CHR ''m'') = CHR ''m''" "asciiLower (CHR ''e'') = CHR ''e''" "asciiLower (CHR ''V'') =
  CHR ''v''" "asciiLower (CHR ''r'') = CHR ''r''" "asciiLower (CHR ''s'') = CHR ''s''"
  "asciiLower (CHR ''i'') = CHR ''i''" "asciiLower (CHR ''o'') = CHR ''o''" "asciiLower
  (CHR ''n'') = CHR ''n''" "asciiLower (CHR ''P'') = CHR ''p''" "asciiLower (CHR ''t'') =
  CHR ''t''" "asciiLower (CHR ''h'') = CHR ''h''"
  by code_simp+

lemma unmarshalProgram_marshalProgram: "unmarshalProgram (marshalProgram p) = Some p"
  by (simp add: unmarshalProgram_def marshalProgram_def setField_def lower_keys zeroProgram_def)

lemma unmarshalAll_marshalProgram: "unmarshalAll (map marshalProgram ps) = Some ps"
  by (induction ps) (simp_all add: unmarshalProgram_marshalProgram)

lemma decodePrograms_jsonDocument:
  "decodePrograms (jsonDocument programs) = Some (coercePrograms programs)"
proof (cases programs)
  case nil_slice
  then show ?thesis
    by (simp add: decodePrograms_def parseJSON_empty unmarshalPrograms_def coercePrograms_def)
next
  case (Slice ps)
  show ?thesis
  proof (cases "ps = []")
    case True
    with Slice show ?thesis
      by (simp add: decodePrograms_def parseJSON_empty unmarshalPrograms_def coercePrograms_def)
  next
    case False
    have "map (\<lambda>p. marshalProgram (coerceProgram p)) ps = map marshalProgram (map coerceProgram ps)"
      by simp
    then show ?thesis
      using Slice
      by (simp add: decodePrograms_def parseJSON_programs [OF False] unmarshalPrograms_def
            coercePrograms_def unmarshalAll_marshalProgram del: map_map)
  qed
qed

lemma coerceProgram_valid: "validProgram p \<Longrightarrow> coerceProgram p = p"
  by (simp add: validProgram_def coerceProgram_def coerceUTF8_valid)

lemma coercePrograms_valid:
  "list_all validProgram (elems programs) \<Longrightarrow> coercePrograms programs = programs"
  by (cases programs) (simp_all add: coercePrograms_def list_all_iff coerceProgram_valid map_idI)

text \<open>
  C7, as the code has it. Reading back the document that the structured export writes
  gives the slice that was written, with as many records and the same three fields in
  each, when the fields are valid UTF-8; in general it gives the records with every
  invalid byte of a field replaced by U+FFFD.
\<close>

theorem structured_round_trip:
  assumes "createError fs filename = None" and "writeError fs filename = None"
  shows
  "\<exists>doc. files (snd (saveToJSON fs programs filename w)) filename = Some doc
      \<and> decodePrograms doc = Some (coercePrograms programs)
      \<and> length (elems (coercePrograms programs)) = length (elems programs)
      \<and> (list_all validProgram (elems programs) \<longrightarrow> decodePrograms doc = Some programs)"
proof -
  have "length (elems (coercePrograms programs)) = length (elems programs)"
    by (cases programs) (simp_all add: coercePrograms_def)
  then show ?thesis
    using saveToJSON_ok(2) [OF assms, of programs w]
    by (auto simp: decodePrograms_jsonDocument coercePrograms_valid)
qed

theorem structured_round_trip_witness:
  "createError okfs ''programs.json'' = None \<and> writeError okfs ''programs.json'' = None
   \<and> list_all validProgram [alpha, beta]
   \<and> (\<exists>doc. files (snd (saveToJSON okfs (Slice [alpha, beta]) ''programs.json'' emptyWorld))
               ''programs.json'' = Some doc
            \<and> decodePrograms doc = Some (Slice [alpha, beta]))"
proof -
  have ok: "createError okfs ''programs.json'' = None" "writeError okfs ''programs.json'' = None"
    by (simp_all add: okfs_def)
  have v: "list_all validProgram [alpha, beta]"
    by (simp add: validProgram_def alpha_def beta_def RuneError_def)
  from structured_round_trip [OF ok, of "Slice [alpha, beta]" emptyWorld]
  show ?thesis
    using ok v by auto
qed

theorem invalid_bytes_round_trip_counterexample:
  "files (snd (saveToJSON okfs (Slice [\<lparr>Name = [CHR 0xFF], Version = [], Path = []\<rparr>])
                  ''programs.json'' emptyWorld)) ''programs.json''
     = Some (jsonDocument (Slice [\<lparr>Name = [CHR 0xFF], Version = [], Path = []\<rparr>]))
   \<and> decodePrograms (jsonDocument (Slice [\<lparr>Name = [CHR 0xFF], Version = [], Path = []\<rparr>]))
       = Some (Slice [\<lparr>Name = [CHR 0xEF, CHR 0xBF, CHR 0xBD], Version = [], Path = []\<rparr>])"
proof -
  have "files (snd (saveToJSON okfs (Slice [\<lparr>Name = [CHR 0xFF], Version = [], Path = []\<rparr>])
                  ''programs.json'' emptyWorld)) ''programs.json''
     = Some (jsonDocument (Slice [\<lparr>Name = [CHR 0xFF], Version = [], Path = []\<rparr>]))"
    by (rule saveToJSON_ok) (simp_all add: okfs_def)
  moreover have "coerceUTF8 [CHR 0xFF] = [CHR 0xEF, CHR 0xBF, CHR 0xBD]"
    by (simp add: string_simps)
  ultimately show ?thesis
    by (simp add: decodePrograms_jsonDocument coercePrograms_def coerceProgram_def string_simps)
qed

subsection \<open>Lower case outside ASCII, and the choice of the export\<close>

text \<open>A byte below 0x80 is a rune of its own, whatever precedes it: appending one to
  a string leaves the runes of the string as they were.\<close>

lemma decode_ascii: "(of_char c :: nat) < 128 \<Longrightarrow> DecodeRuneInString (c # cs) = (of_char c, 1)"
  by simp

lemma decode_before_ascii:
  assumes "(of_char a :: nat) < 128"
  shows "DecodeRuneInString (c # cs @ a # y) = DecodeRuneInString (c # cs)"
proof (cases cs)
  case Nil
  with assms show ?thesis by (simp add: Let_def)
next
  case c1: (Cons c1 X1)
  show ?thesis
  proof (cases X1)
    case Nil
    with c1 assms show ?thesis by (simp add: Let_def)
  next
    case c2: (Cons c2 X2)
    show ?thesis
    proof (cases X2)
      case Nil
      with c1 c2 assms show ?thesis by (simp add: Let_def)
    next
      case c3: (Cons c3 X3)
      with c1 c2 assms show ?thesis by (simp add: Let_def)
    qed
  qed
qed

lemma decode_width_le: "DecodeRuneInString (c # cs) = (r, w) \<Longrightarrow> w \<le> Suc (length cs)"
proof (cases "128 \<le> (of_char c :: nat) \<and> \<not> (r = RuneError \<and> w = 1)")
  case True
  assume "DecodeRuneInString (c # cs) = (r, w)"
  with True decode_valid [of c cs r w] show ?thesis by blast
next
  case False
  assume "DecodeRuneInString (c # cs) = (r, w)"
  with False show ?thesis by (cases "(of_char c :: nat) < 128") auto
qed

lemma decode_high:
  assumes "128 \<le> (of_char c :: nat)" and "DecodeRuneInString (c # cs) = (r, w)"
  shows "128 \<le> r"
proof (cases "r = RuneError \<and> w = 1")
  case True
  then show ?thesis by (simp add: RuneError_def)
next
  case False
  from decode_valid [OF assms False, of "[]"]
  have e: "EncodeRune r = take w (c # cs)" and w: "2 \<le> w" "w \<le> Suc (length cs)"
    by simp_all
  show ?thesis
  proof (rule ccontr)
    assume "\<not> 128 \<le> r"
    then have "length (EncodeRune r) = 1" by (simp add: EncodeRune_1)
    then have "length (take w (c # cs)) = 1" unfolding e .
    with w show False by simp
  qed
qed

lemma strings_Map_step:
  "DecodeRuneInString (c # cs) = (r, w) \<Longrightarrow>
     strings_Map f (c # cs) = EncodeRune (f r) @ strings_Map f (drop (w - 1) cs)"
  by simp

lemma lower_ascii_byte:
  "(of_char c :: nat) < 128 \<Longrightarrow> EncodeRune (unicode_ToLower m (of_char c)) = [asciiLower c]"
  by (simp add: unicode_ToLower_def asciiLower_def EncodeRune_def Let_def)

lemma strings_Map_ascii:
  assumes "(of_char c :: nat) < 128"
  shows "strings_Map (unicode_ToLower m) (c # cs)
           = asciiLower c # strings_Map (unicode_ToLower m) cs"
proof -
  have d: "DecodeRuneInString (c # cs) = (of_char c, 1)"
    by (rule decode_ascii [OF assms])
  show ?thesis
    unfolding strings_Map_step [OF d] by (simp add: lower_ascii_byte [OF assms])
qed

lemma strings_Map_isASCII:
  "isASCII v \<Longrightarrow> strings_Map (unicode_ToLower m) v = map asciiLower v"
proof (induction v)
  case Nil
  show ?case by simp
next
  case (Cons c v)
  then have "(of_char c :: nat) < 128" "isASCII v" by (simp_all add: isASCII_def)
  with Cons.IH show ?case by (simp add: strings_Map_ascii del: strings_Map.simps)
qed

lemma strings_Map_append:
  assumes "(of_char a :: nat) < 128"
  shows "strings_Map f (s @ a # y) = strings_Map f s @ strings_Map f (a # y)"
proof (induction s rule: length_induct)
  case (1 s)
  show ?case
  proof (cases s)
    case Nil
    then show ?thesis by simp
  next
    case (Cons c cs)
    obtain r w where d: "DecodeRuneInString (c # cs) = (r, w)"
      by (cases "DecodeRuneInString (c # cs)")
    have d': "DecodeRuneInString (c # cs @ a # y) = (r, w)"
      using decode_before_ascii [OF assms, of c cs y] d by simp
    have w: "w - 1 \<le> length cs" using decode_width_le [OF d] by simp
    then have dr: "drop (w - 1) (cs @ a # y) = drop (w - 1) cs @ a # y" by simp
    have "length (drop (w - 1) cs) < length s" using Cons by simp
    with 1 have IH: "strings_Map f (drop (w - 1) cs @ a # y)
                       = strings_Map f (drop (w - 1) cs) @ strings_Map f (a # y)"
      by blast
    show ?thesis
      unfolding Cons append_Cons strings_Map_step [OF d] strings_Map_step [OF d'] dr IH
      by simp
  qed
qed

lemma of_char_char_of: "n < 256 \<Longrightarrow> (of_char (char_of n) :: nat) = n"
  by simp

lemma EncodeRune_high_last:
  "128 \<le> r \<Longrightarrow> EncodeRune r \<noteq> [] \<and> 128 \<le> (of_char (last (EncodeRune r)) :: nat)"
  by (simp add: EncodeRune_def)

lemma json_bytes:
  "b \<in> set ''.json'' \<Longrightarrow> (of_char b :: nat) \<in> {0x2E, 0x6A, 0x73, 0x6F, 0x6E}"
  by auto

lemma EncodeRune_not_json:
  assumes "128 \<le> r \<or> r \<notin> {0x2E, 0x6A, 0x73, 0x6F, 0x6E}"
  shows "EncodeRune r \<noteq> [] \<and> last (EncodeRune r) \<notin> set ''.json''"
proof (cases "128 \<le> r")
  case True
  from EncodeRune_high_last [OF True] json_bytes [of "last (EncodeRune r)"]
  show ?thesis by auto
next
  case False
  then have e: "EncodeRune r = [char_of r]" by (simp add: EncodeRune_1)
  have "(of_char (char_of r) :: nat) = r" using False by simp
  with json_bytes [of "char_of r"] assms False show ?thesis
    unfolding e by auto
qed

lemma strings_Map_high_last:
  assumes tab: "\<forall>r. 0x7F < r \<longrightarrow> mapLower r \<notin> {0x2E, 0x6A, 0x73, 0x6F, 0x6E}"
  shows "s \<noteq> [] \<Longrightarrow> 128 \<le> (of_char (last s) :: nat)
     \<Longrightarrow> strings_Map (unicode_ToLower mapLower) s \<noteq> []
         \<and> last (strings_Map (unicode_ToLower mapLower) s) \<notin> set ''.json''"
proof (induction s rule: length_induct)
  case (1 s)
  from 1(2) obtain c cs where s: "s = c # cs" by (cases s) auto
  obtain r w where d: "DecodeRuneInString (c # cs) = (r, w)"
    by (cases "DecodeRuneInString (c # cs)")
  define rest where "rest = drop (w - 1) cs"
  have out: "strings_Map (unicode_ToLower mapLower) s
               = EncodeRune (unicode_ToLower mapLower r) @ strings_Map (unicode_ToLower mapLower) rest"
    unfolding s rest_def by (rule strings_Map_step [OF d])
  show ?case
  proof (cases "rest = []")
    case True
    have c: "128 \<le> (of_char c :: nat)"
    proof (rule ccontr)
      assume "\<not> 128 \<le> (of_char c :: nat)"
      then have a: "(of_char c :: nat) < 128" by simp
      from decode_ascii [OF a, of cs] d have "w = 1" by simp
      with True have "cs = []" by (simp add: rest_def)
      with 1(3) s a show False by simp
    qed
    from decode_high [OF c d] have r: "128 \<le> r" .
    then have l: "unicode_ToLower mapLower r = mapLower r"
      by (simp add: unicode_ToLower_def)
    have "128 \<le> mapLower r \<or> mapLower r \<notin> {0x2E, 0x6A, 0x73, 0x6F, 0x6E}"
      using tab r by simp
    from EncodeRune_not_json [OF this] show ?thesis
      unfolding out l True by simp
  next
    case False
    then have cs: "cs \<noteq> []" by (auto simp: rest_def)
    have "last rest = last cs"
      using False unfolding rest_def by (simp add: last_drop)
    with cs 1(3) s have h: "128 \<le> (of_char (last rest) :: nat)" by simp
    have "length rest < length s" by (simp add: rest_def s)
    with 1(1) False h
    have IH: "strings_Map (unicode_ToLower mapLower) rest \<noteq> []
         \<and> last (strings_Map (unicode_ToLower mapLower) rest) \<notin> set ''.json''"
      by blast
    then show ?thesis unfolding out by simp
  qed
qed

lemma strings_Map_peel:
  assumes tab: "\<forall>r. 0x7F < r \<longrightarrow> mapLower r \<notin> {0x2E, 0x6A, 0x73, 0x6F, 0x6E}"
    and out: "strings_Map (unicode_ToLower mapLower) s = t @ [b]"
    and b: "b \<in> set ''.json''"
  shows "\<exists>s' c. s = s' @ [c] \<and> asciiLower c = b
           \<and> strings_Map (unicode_ToLower mapLower) s' = t"
proof -
  have "s \<noteq> []" using out by auto
  then obtain s' c where s: "s = s' @ [c]" by (cases s rule: rev_cases) auto
  have a: "(of_char c :: nat) < 128"
  proof (rule ccontr)
    assume "\<not> (of_char c :: nat) < 128"
    then have "128 \<le> (of_char (last s) :: nat)" by (simp add: s)
    from strings_Map_high_last [OF tab \<open>s \<noteq> []\<close> this] out b show False by simp
  qed
  have "strings_Map (unicode_ToLower mapLower) s
          = strings_Map (unicode_ToLower mapLower) s' @ [asciiLower c]"
    unfolding s strings_Map_append [OF a] strings_Map_ascii [OF a] by simp
  with out have "strings_Map (unicode_ToLower mapLower) s' = t \<and> asciiLower c = b" by simp
  with s show ?thesis by blast
qed

lemma asciiLower_ascii:
  "(of_char (asciiLower c) :: nat) < 128 \<Longrightarrow> (of_char c :: nat) < 128"
  by (simp add: asciiLower_def Let_def split: if_splits)

lemma strings_Map_json:
  assumes "5 \<le> length s" and "map asciiLower (drop (length s - 5) s) = ''.json''"
  shows "HasSuffix (strings_Map (unicode_ToLower mapLower) s) ''.json''"
proof -
  define v where "v = drop (length s - 5) s"
  have s: "s = take (length s - 5) s @ v" by (simp add: v_def)
  have lv: "length v = 5" using assms(1) by (simp add: v_def)
  have low: "map asciiLower v = ''.json''" using assms(2) by (simp add: v_def)
  have "\<forall>c \<in> set v. (of_char (asciiLower c) :: nat) < 128"
  proof
    fix c assume "c \<in> set v"
    then have "asciiLower c \<in> set (map asciiLower v)" by simp
    then show "(of_char (asciiLower c) :: nat) < 128" unfolding low by auto
  qed
  then have asc: "isASCII v"
    by (auto simp: isASCII_def list_all_iff asciiLower_ascii)
  obtain a y where v: "v = a # y" using lv by (cases v) auto
  have a: "(of_char a :: nat) < 128" using asc by (simp add: v isASCII_def)
  have "strings_Map (unicode_ToLower mapLower) s
          = strings_Map (unicode_ToLower mapLower) (take (length s - 5) s)
            @ strings_Map (unicode_ToLower mapLower) v"
    using strings_Map_append [OF a, of "unicode_ToLower mapLower" "take (length s - 5) s" y]
      s v by simp
  also have "strings_Map (unicode_ToLower mapLower) v = ''.json''"
    using strings_Map_isASCII [OF asc] low by simp
  finally show ?thesis
    by (simp add: HasSuffix_def)
qed

lemma strings_Map_json_only:
  assumes tab: "\<forall>r. 0x7F < r \<longrightarrow> mapLower r \<notin> {0x2E, 0x6A, 0x73, 0x6F, 0x6E}"
    and suf: "HasSuffix (strings_Map (unicode_ToLower mapLower) s) ''.json''"
  shows "5 \<le> length s \<and> map asciiLower (drop (length s - 5) s) = ''.json''"
proof -
  define f where "f = strings_Map (unicode_ToLower mapLower)"
  from suf obtain t where t: "f s = t @ ''.json''"
    unfolding HasSuffix_def f_def by (metis append_take_drop_id)
  have peel: "\<exists>s' c. x = s' @ [c] \<and> asciiLower c = b \<and> f s' = u"
    if "f x = u @ [b]" "b \<in> set ''.json''" for x u b
    using strings_Map_peel [OF tab, of x u b] that unfolding f_def by blast
  from t have "f s = (t @ ''.jso'') @ ''n''" by simp
  from peel [OF this] obtain s1 c5 where 1: "s = s1 @ [c5]" "asciiLower c5 = CHR ''n''"
      "f s1 = t @ ''.jso''" by auto
  from 1(3) have "f s1 = (t @ ''.js'') @ ''o''" by simp
  from peel [OF this] obtain s2 c4 where 2: "s1 = s2 @ [c4]" "asciiLower c4 = CHR ''o''"
      "f s2 = t @ ''.js''" by auto
  from 2(3) have "f s2 = (t @ ''.j'') @ ''s''" by simp
  from peel [OF this] obtain s3 c3 where 3: "s2 = s3 @ [c3]" "asciiLower c3 = CHR ''s''"
      "f s3 = t @ ''.j''" by auto
  from 3(3) have "f s3 = (t @ ''.'') @ ''j''" by simp
  from peel [OF this] obtain s4 c2 where 4: "s3 = s4 @ [c2]" "asciiLower c2 = CHR ''j''"
      "f s4 = t @ ''.''" by auto
  from peel [OF 4(3)] obtain s5 c1 where 5: "s4 = s5 @ [c1]" "asciiLower c1 = CHR ''.''"
    by auto
  have "s = s5 @ [c1, c2, c3, c4, c5]" by (simp add: 1(1) 2(1) 3(1) 4(1) 5(1))
  then show ?thesis
    by (simp add: 1(2) 2(2) 3(2) 4(2) 5(2))
qed

lemma HasSuffix_lower:
  assumes "isASCII s \<or> (\<forall>r. 0x7F < r \<longrightarrow> mapLower r \<notin> {0x2E, 0x6A, 0x73, 0x6F, 0x6E})"
  shows "HasSuffix (ToLower mapLower s) ''.json''
           = (5 \<le> length s \<and> map asciiLower (drop (length s - 5) s) = ''.json'')"
proof (cases "isASCII s")
  case True
  then show ?thesis by (rule HasSuffix_ascii)
next
  case False
  with assms have tab: "\<forall>r. 0x7F < r \<longrightarrow> mapLower r \<notin> {0x2E, 0x6A, 0x73, 0x6F, 0x6E}"
    by blast
  have "ToLower mapLower s = strings_Map (unicode_ToLower mapLower) s"
    using False by (simp add: ToLower_def)
  then show ?thesis
    using strings_Map_json [of s mapLower] strings_Map_json_only [OF tab, of s] by auto
qed

lemma HasSuffix_lower_any:
  assumes "5 \<le> length s" and "map asciiLower (drop (length s - 5) s) = ''.json''"
  shows "HasSuffix (ToLower mapLower s) ''.json''"
proof (cases "isASCII s")
  case True
  with assms show ?thesis by (simp add: HasSuffix_ascii)
next
  case False
  then have "ToLower mapLower s = strings_Map (unicode_ToLower mapLower) s"
    by (simp add: ToLower_def)
  with strings_Map_json [OF assms] show ?thesis by simp
qed

text \<open>
  C10, as the code has it. Without an output path the results go to the console.
  With a path whose lower-case form ends in \<open>.json\<close> the file receives the structured
  document, with every other path it receives the text report, and the two documents
  are never the same. A path whose last five bytes are \<open>.json\<close> in any mix of case,
  such as one that ends in \<open>.JSON\<close>, selects the structured export, whatever bytes
  come before them. No other path does: in the case tables of the Unicode package no
  rune above \<open>MaxASCII\<close> has one of the five characters of \<open>.json\<close> as its lower case
  (the only ASCII lower cases there are \<open>i\<close> of U+0130 and \<open>k\<close> of U+212A); with such
  tables, and for every path of ASCII bytes with any tables, the test holds exactly
  when the last five bytes of the path are \<open>.json\<close> regardless of case.
\<close>

theorem export_format_by_suffix:
  "(outputFile = [] \<longrightarrow>
      exportResults fs mapLower programs outputFile w = displayResults programs w)
   \<and> (outputFile \<noteq> [] \<and> createError fs outputFile = None \<and> writeError fs outputFile = None
      \<longrightarrow> files (exportResults fs mapLower programs outputFile w) outputFile
            = Some (if HasSuffix (ToLower mapLower outputFile) ''.json''
                    then jsonDocument programs else textReport programs))
   \<and> jsonDocument programs \<noteq> textReport programs
   \<and> (5 \<le> length outputFile
        \<and> map asciiLower (drop (length outputFile - 5) outputFile) = ''.json''
      \<longrightarrow> HasSuffix (ToLower mapLower outputFile) ''.json'')
   \<and> (isASCII outputFile
        \<or> (\<forall>r. 0x7F < r \<longrightarrow> mapLower r \<notin> {0x2E, 0x6A, 0x73, 0x6F, 0x6E})
      \<longrightarrow> HasSuffix (ToLower mapLower outputFile) ''.json''
            = (5 \<le> length outputFile
               \<and> map asciiLower (drop (length outputFile - 5) outputFile) = ''.json''))"
proof (intro conjI impI)
  show "exportResults fs mapLower programs outputFile w = displayResults programs w"
    if "outputFile = []"
    using that by (simp add: exportResults_console)
  show "files (exportResults fs mapLower programs outputFile w) outputFile
            = Some (if HasSuffix (ToLower mapLower outputFile) ''.json''
                    then jsonDocument programs else textReport programs)"
    if "outputFile \<noteq> [] \<and> createError fs outputFile = None \<and> writeError fs outputFile = None"
    using that exportResults_json [of outputFile mapLower fs programs w]
      exportResults_text [of outputFile mapLower fs programs w]
    by simp
  show "jsonDocument programs \<noteq> textReport programs"
    by (rule documents_differ)
  show "HasSuffix (ToLower mapLower outputFile) ''.json''"
    if "5 \<le> length outputFile
        \<and> map asciiLower (drop (length outputFile - 5) outputFile) = ''.json''"
    using that [THEN conjunct1] that [THEN conjunct2] by (rule HasSuffix_lower_any)
  show "HasSuffix (ToLower mapLower outputFile) ''.json''
            = (5 \<le> length outputFile
               \<and> map asciiLower (drop (length outputFile - 5) outputFile) = ''.json'')"
    if "isASCII outputFile
        \<or> (\<forall>r. 0x7F < r \<longrightarrow> mapLower r \<notin> {0x2E, 0x6A, 0x73, 0x6F, 0x6E})"
    using that by (rule HasSuffix_lower)
qed

theorem export_format_by_suffix_witness:
  "files (exportResults okfs someLower (Slice [alpha]) ''programs.json'' emptyWorld)
      ''programs.json'' = Some (jsonDocument (Slice [alpha]))
   \<and> files (exportResults okfs someLower (Slice [alpha]) ''programs.txt'' emptyWorld)
      ''programs.txt'' = Some (textReport (Slice [alpha]))
   \<and> files (exportResults okfs someLower (Slice [alpha]) ''programs'' emptyWorld)
      ''programs'' = Some (textReport (Slice [alpha]))
   \<and> files (exportResults okfs someLower (Slice [alpha])
               (''CAF'' @ [CHR 0xC3, CHR 0x89] @ ''.JSON'') emptyWorld)
      (''CAF'' @ [CHR 0xC3, CHR 0x89] @ ''.JSON'') = Some (jsonDocument (Slice [alpha]))
   \<and> files (exportResults okfs someLower (Slice [alpha])
               (''CAF'' @ [CHR 0xC3, CHR 0x89] @ ''.txt'') emptyWorld)
      (''CAF'' @ [CHR 0xC3, CHR 0x89] @ ''.txt'') = Some (textReport (Slice [alpha]))
   \<and> \<not> isASCII (''CAF'' @ [CHR 0xC3, CHR 0x89] @ ''.JSON'')
   \<and> ToLower someLower (''CAF'' @ [CHR 0xC3, CHR 0x89] @ ''.JSON'')
       = ''caf'' @ [CHR 0xC3, CHR 0xA9] @ ''.json''
   \<and> HasSuffix (ToLower someLower ''programs.json'') ''.json''"
proof -
  have ok: "createError okfs f = None" "writeError okfs f = None" for f
    by (simp_all add: okfs_def)
  have tab: "\<forall>r. 0x7F < r \<longrightarrow> someLower r \<notin> {0x2E, 0x6A, 0x73, 0x6F, 0x6E}"
    by (simp add: someLower_def)
  have l: "map asciiLower (drop (length ''programs.json'' - 5) ''programs.json'') = ''.json''"
    "map asciiLower (drop (length ''programs.txt'' - 5) ''programs.txt'') \<noteq> ''.json''"
    "map asciiLower (drop (length ''programs'' - 5) ''programs'') \<noteq> ''.json''"
    "map asciiLower (drop (length (''CAF'' @ [CHR 0xC3, CHR 0x89] @ ''.JSON'') - 5)
        (''CAF'' @ [CHR 0xC3, CHR 0x89] @ ''.JSON'')) = ''.json''"
    "map asciiLower (drop (length (''CAF'' @ [CHR 0xC3, CHR 0x89] @ ''.txt'') - 5)
        (''CAF'' @ [CHR 0xC3, CHR 0x89] @ ''.txt'')) \<noteq> ''.json''"
    by (simp_all add: asciiLower_def lower_letters)
  have n: "\<not> isASCII (''CAF'' @ [CHR 0xC3, CHR 0x89] @ ''.JSON'')"
    by (simp add: isASCII_def)
  have e: "ToLower someLower (''CAF'' @ [CHR 0xC3, CHR 0x89] @ ''.JSON'')
       = ''caf'' @ [CHR 0xC3, CHR 0xA9] @ ''.json''"
    by code_simp
  from export_format_by_suffix [of "''programs.json''" okfs someLower "Slice [alpha]" emptyWorld]
    export_format_by_suffix [of "''programs.txt''" okfs someLower "Slice [alpha]" emptyWorld]
    export_format_by_suffix [of "''programs''" okfs someLower "Slice [alpha]" emptyWorld]
    export_format_by_suffix [of "''CAF'' @ [CHR 0xC3, CHR 0x89] @ ''.JSON''" okfs someLower
      "Slice [alpha]" emptyWorld]
    export_format_by_suffix [of "''CAF'' @ [CHR 0xC3, CHR 0x89] @ ''.txt''" okfs someLower
      "Slice [alpha]" emptyWorld]
  show ?thesis
    using tab l n e by (simp add: ok)
qed

theorem upper_case_JSON_is_text_counterexample:
  "files (exportResults okfs someLower (Slice [alpha]) ''out.JSON'' emptyWorld) ''out.JSON''
     = Some (jsonDocument (Slice [alpha]))
   \<and> jsonDocument (Slice [alpha]) \<noteq> textReport (Slice [alpha])"
proof -
  have "files (exportResults okfs someLower (Slice [alpha]) ''out.JSON'' emptyWorld) ''out.JSON''
          = Some (jsonDocument (Slice [alpha]))"
    by (rule exportResults_json) (simp_all add: lower_JSON okfs_def)
  then show ?thesis
    by (simp add: documents_differ)
qed

end
